theory Spec2Isabelle
  imports Main "HOL-Library.Multiset"
begin

section \<open>Python values: errors, indexing, objects\<close>

text \<open>
  Every exception the modelled code can raise is a value; a method that may raise returns
  \<open>error + 'a\<close>, with \<open>Inl\<close> the exception.
\<close>

datatype error = IndexError | ValueError | AttributeError | TypeError

definition bind_err :: "error + 'a \<Rightarrow> ('a \<Rightarrow> error + 'b) \<Rightarrow> error + 'b" where
  "bind_err m f = (case m of Inl e \<Rightarrow> Inl e | Inr v \<Rightarrow> f v)"

text \<open>
  Python list indexing: an index \<open>i\<close> with \<open>-n \<le> i < 0\<close> counts from the end, anything
  outside \<open>[-n, n)\<close> raises IndexError.
\<close>

definition py_index :: "'a list \<Rightarrow> int \<Rightarrow> nat option" where
  "py_index xs i =
     (let n = int (length xs)
      in if 0 \<le> i \<and> i < n then Some (nat i)
         else if - n \<le> i \<and> i < 0 then Some (nat (n + i))
         else None)"

definition py_get :: "'a list \<Rightarrow> int \<Rightarrow> error + 'a" where
  "py_get xs i = (case py_index xs i of None \<Rightarrow> Inl IndexError | Some k \<Rightarrow> Inr (xs ! k))"

definition py_set :: "'a list \<Rightarrow> int \<Rightarrow> 'a \<Rightarrow> error + 'a list" where
  "py_set xs i v = (case py_index xs i of None \<Rightarrow> Inl IndexError | Some k \<Rightarrow> Inr (xs[k := v]))"

text \<open>
  Block objects are mutable and shared between a tetromino's \<open>square_units\<close> and the
  playfield's matrix, and the code compares them by identity. They live in an object store
  (a list of blocks); a reference is an index into it, created only by allocation.
\<close>

type_synonym ref = nat

type_synonym colour = "nat \<times> nat \<times> nat"

record Block =
  colour :: colour
  x_coord :: int
  y_coord :: int

definition CYAN :: colour where "CYAN = (0, 255, 255)"
definition BLUE :: colour where "BLUE = (0, 0, 255)"
definition ORANGE :: colour where "ORANGE = (255, 128, 0)"
definition YELLOW :: colour where "YELLOW = (255, 255, 0)"
definition GREEN :: colour where "GREEN = (0, 255, 0)"
definition PURPLE :: colour where "PURPLE = (128, 0, 128)"
definition RED :: colour where "RED = (255, 0, 0)"

text \<open>Block.set_coords and Block.translate (shift_left, shift_right, shift_down call it).\<close>

definition set_coords :: "Block \<Rightarrow> int \<Rightarrow> int \<Rightarrow> Block" where
  "set_coords b x y = b\<lparr>x_coord := x, y_coord := y\<rparr>"

definition translate :: "Block \<Rightarrow> int \<Rightarrow> int \<Rightarrow> Block" where
  "translate b dx dy = b\<lparr>x_coord := x_coord b + dx, y_coord := y_coord b + dy\<rparr>"

section \<open>The tetromino classes\<close>

datatype Shape = ShapeI | ShapeJ | ShapeL | ShapeO | ShapeS | ShapeT | ShapeZ

text \<open>
  The fields of class Tetromino. The origin and colour fields carry the suffix \<open>_t\<close>
  (the Block record has the same names); \<open>shape\<close> is the class of the instance. The
  display image is left out, and the back reference \<open>self.grid\<close> is the playfield passed
  to every method.
\<close>

record Tetromino =
  shape :: Shape
  x_coord_t :: int
  y_coord_t :: int
  colour_t :: colour
  square_units :: "ref option list"
  block_positions :: "(int \<times> int) list list"
  rotation_index :: int

definition SURFACE_COLOUR :: "Shape \<Rightarrow> colour" where
  "SURFACE_COLOUR s = (case s of ShapeI \<Rightarrow> CYAN | ShapeJ \<Rightarrow> BLUE | ShapeL \<Rightarrow> ORANGE
     | ShapeO \<Rightarrow> YELLOW | ShapeS \<Rightarrow> GREEN | ShapeT \<Rightarrow> PURPLE | ShapeZ \<Rightarrow> RED)"

text \<open>The \<open>block_positions\<close> table each subclass constructor installs.\<close>

definition shape_positions :: "Shape \<Rightarrow> (int \<times> int) list list" where
  "shape_positions s = (case s of
       ShapeI \<Rightarrow> [[(0, 0), (1, 0), (2, 0), (3, 0)],
                  [(2, -1), (2, 0), (2, 1), (2, 2)]]
     | ShapeJ \<Rightarrow> [[(0, 0), (0, 1), (1, 1), (2, 1)],
                  [(2, -1), (1, -1), (1, 0), (1, 1)],
                  [(2, 1), (2, 0), (1, 0), (0, 0)],
                  [(0, 1), (1, 1), (1, 0), (1, -1)]]
     | ShapeL \<Rightarrow> [[(0, 1), (1, 1), (2, 1), (2, 0)],
                  [(1, -1), (1, 0), (1, 1), (2, 1)],
                  [(2, 0), (1, 0), (0, 0), (0, 1)],
                  [(1, 1), (1, 0), (1, -1), (0, -1)]]
     | ShapeO \<Rightarrow> [[(1, 0), (1, 1), (2, 1), (2, 0)]]
     | ShapeS \<Rightarrow> [[(0, 1), (1, 1), (1, 0), (2, 0)],
                  [(0, -1), (0, 0), (1, 0), (1, 1)]]
     | ShapeT \<Rightarrow> [[(1, 0), (0, 1), (1, 1), (2, 1)],
                  [(2, 0), (1, -1), (1, 0), (1, 1)],
                  [(1, 1), (2, 0), (1, 0), (0, 0)],
                  [(0, 0), (1, 1), (1, 0), (1, -1)]]
     | ShapeZ \<Rightarrow> [[(0, 0), (1, 0), (1, 1), (2, 1)],
                  [(2, -1), (2, 0), (1, 0), (1, 1)]])"

text \<open>
  The constructor of a subclass: Tetromino.__init__ followed by the subclass's assignment
  of \<open>block_positions\<close>.
\<close>

definition new_tetromino :: "Shape \<Rightarrow> Tetromino" where
  "new_tetromino s =
     \<lparr>shape = s, x_coord_t = 0, y_coord_t = 0, colour_t = SURFACE_COLOUR s,
      square_units = replicate 4 None, block_positions = shape_positions s,
      rotation_index = 0\<rparr>"

section \<open>The playfield\<close>

text \<open>
  The suspended state of \<open>line_clear_generator\<close>: the yield it is waiting at and its
  local variables.
\<close>

datatype clear_pc =
    At_start
  | At_column_yield "int list"
  | At_interval_yield "int list" "int list"
  | At_delay_yield
  | At_end_yield

record clear_gen =
  pc :: clear_pc
  full_rows :: "int list"
  num_of_lines :: int
  delay_counter :: int

text \<open>
  LevelPanel, and what the playfield needs of GameInterfaceModel: the level panel, the
  line count of the lines panel, the score of the score panel, and (for the statements
  below) the arguments of the \<open>increase_lines\<close> calls it has received, in order.
\<close>

record LevelPanel =
  level :: int
  lines_to_level :: int
  lines_left :: int

record GameInterfaceModel =
  level_panel :: LevelPanel
  lines :: int
  score :: int
  lines_received :: "int list"

text \<open>
  The fields of class Playfield that the simulation uses (the drawing surface, colours and
  the game-over generator are left out). \<open>heap\<close> is the object store of the blocks. A row
  of the matrix is a list object of its own: no two indices of the matrix ever hold the same
  row object (\<open>clear_row\<close> installs a new list, \<open>shift_rows_down\<close> moves rows), so
  the matrix is a list of lists by value.
\<close>

record Playfield =
  grid_width :: int
  grid_height :: int
  hidden_rows :: int
  active_tetromino :: "Tetromino option"
  matrix :: "ref option list list"
  heap :: "Block list"
  model :: GameInterfaceModel
  gravity :: int
  lock_delay :: int
  entry_delay :: int
  gravity_counter :: int
  lock_counter :: int
  entry_counter :: int
  in_lock_phase :: bool
  tetromino_isactive :: bool
  in_clear_phase :: bool
  clear_delay :: int
  game_over :: bool
  clear_generator :: "clear_gen option"
  soft_drop_isactive :: bool

definition new_LevelPanel :: LevelPanel where
  "new_LevelPanel = \<lparr>level = 1, lines_to_level = 10, lines_left = 10\<rparr>"

definition new_GameInterfaceModel :: GameInterfaceModel where
  "new_GameInterfaceModel =
     \<lparr>level_panel = new_LevelPanel, lines = 0, score = 0, lines_received = []\<rparr>"

text \<open>
  Playfield.__init__. The initial gravity is \<open>model.calculate_gravity()\<close>, a
  floating-point computation; its value is the parameter \<open>g\<close>.
\<close>

definition new_Playfield :: "int \<Rightarrow> Playfield" where
  "new_Playfield g =
     \<lparr>grid_width = 10, grid_height = 22, hidden_rows = 2, active_tetromino = None,
      matrix = replicate 22 (replicate 10 None), heap = [],
      model = new_GameInterfaceModel, gravity = g, lock_delay = 30, entry_delay = 25,
      gravity_counter = 0, lock_counter = 0, entry_counter = 0, in_lock_phase = False,
      tetromino_isactive = False, in_clear_phase = False, clear_delay = 40,
      game_over = False, clear_generator = None, soft_drop_isactive = False\<rparr>"

subsection \<open>Cells\<close>

text \<open>The expression \<open>self.matrix[y][x]\<close>, read and assigned.\<close>

definition matrix_get :: "Playfield \<Rightarrow> int \<Rightarrow> int \<Rightarrow> error + ref option" where
  "matrix_get pf x y = bind_err (py_get (matrix pf) y) (\<lambda>row. py_get row x)"

definition matrix_set :: "Playfield \<Rightarrow> int \<Rightarrow> int \<Rightarrow> ref option \<Rightarrow> error + Playfield" where
  "matrix_set pf x y v =
     (case py_index (matrix pf) y of
        None \<Rightarrow> Inl IndexError
      | Some j \<Rightarrow> bind_err (py_set (matrix pf ! j) x v)
                   (\<lambda>row. Inr (pf\<lparr>matrix := (matrix pf)[j := row]\<rparr>)))"

definition get_block :: "Playfield \<Rightarrow> int \<Rightarrow> int \<Rightarrow> error + ref" where
  "get_block pf x y =
     bind_err (matrix_get pf x y)
       (\<lambda>block. case block of None \<Rightarrow> Inl ValueError | Some r \<Rightarrow> Inr r)"

definition check_cell_empty :: "Playfield \<Rightarrow> int \<Rightarrow> int \<Rightarrow> error + bool" where
  "check_cell_empty pf x y = bind_err (matrix_get pf x y) (\<lambda>block. Inr (block = None))"

definition is_in_bounds :: "Playfield \<Rightarrow> int \<Rightarrow> int \<Rightarrow> bool" where
  "is_in_bounds pf x y =
     (if x < 0 \<or> x > grid_width pf - 1 then False
      else if y < 0 \<or> y > grid_height pf - 1 then False
      else True)"

definition add_block :: "Playfield \<Rightarrow> ref \<Rightarrow> error + Playfield" where
  "add_block pf block =
     (let x = x_coord (heap pf ! block); y = y_coord (heap pf ! block)
      in bind_err (check_cell_empty pf x y)
           (\<lambda>empty. if \<not> empty then Inl ValueError else matrix_set pf x y (Some block)))"

definition check_block_position :: "Playfield \<Rightarrow> ref \<Rightarrow> error + bool" where
  "check_block_position pf block =
     (let x = x_coord (heap pf ! block); y = y_coord (heap pf ! block)
      in bind_err (matrix_get pf x y) (\<lambda>block_found. Inr (block_found = Some block)))"

definition remove_block :: "Playfield \<Rightarrow> ref \<Rightarrow> error + Playfield" where
  "remove_block pf block =
     bind_err (check_block_position pf block)
       (\<lambda>ok. if \<not> ok then Inl ValueError
              else let x = x_coord (heap pf ! block); y = y_coord (heap pf ! block)
                   in matrix_set pf x y None)"

subsection \<open>Rows\<close>

text \<open>The loops of \<open>check_row_empty\<close> and \<open>check_row_full\<close> over the cells of a row.\<close>

fun check_row_empty_loop :: "ref option list \<Rightarrow> bool" where
  "check_row_empty_loop [] = True"
| "check_row_empty_loop (block # block_row) =
     (if block \<noteq> None then False else check_row_empty_loop block_row)"

definition check_row_empty :: "Playfield \<Rightarrow> int \<Rightarrow> error + bool" where
  "check_row_empty pf row =
     bind_err (py_get (matrix pf) row) (\<lambda>block_row. Inr (check_row_empty_loop block_row))"

fun check_row_full_loop :: "ref option list \<Rightarrow> bool" where
  "check_row_full_loop [] = True"
| "check_row_full_loop (block # block_row) =
     (if block = None then False else check_row_full_loop block_row)"

definition check_row_full :: "Playfield \<Rightarrow> int \<Rightarrow> error + bool" where
  "check_row_full pf row =
     bind_err (py_get (matrix pf) row) (\<lambda>block_row. Inr (check_row_full_loop block_row))"

text \<open>The loop of \<open>check_grid_empty\<close> over \<open>range(0, grid_height)\<close>.\<close>

fun check_grid_empty_loop :: "Playfield \<Rightarrow> int list \<Rightarrow> error + bool" where
  "check_grid_empty_loop pf [] = Inr True"
| "check_grid_empty_loop pf (row # rows) =
     bind_err (check_row_empty pf row)
       (\<lambda>empty. if \<not> empty then Inr False else check_grid_empty_loop pf rows)"

definition check_grid_empty :: "Playfield \<Rightarrow> error + bool" where
  "check_grid_empty pf = check_grid_empty_loop pf [0 .. grid_height pf - 1]"

text \<open>The loop of \<open>get_top_block_row\<close> over \<open>range(0, grid_height - 1)\<close>.\<close>

fun get_top_block_row_loop :: "Playfield \<Rightarrow> int list \<Rightarrow> error + int" where
  "get_top_block_row_loop pf [] = Inr (- 1)"
| "get_top_block_row_loop pf (row # rows) =
     bind_err (check_row_empty pf row)
       (\<lambda>empty. if \<not> empty then Inr row else get_top_block_row_loop pf rows)"

definition get_top_block_row :: "Playfield \<Rightarrow> error + int" where
  "get_top_block_row pf = get_top_block_row_loop pf [0 .. grid_height pf - 1 - 1]"

definition clear_row :: "Playfield \<Rightarrow> int \<Rightarrow> error + Playfield" where
  "clear_row pf row_index =
     bind_err (py_set (matrix pf) row_index (replicate (nat (grid_width pf)) None))
       (\<lambda>m. Inr (pf\<lparr>matrix := m\<rparr>))"

section \<open>Tetromino methods\<close>

text \<open>
  A method call on an element of \<open>square_units\<close>: the placeholder None of the
  constructor has no methods.
\<close>

definition block_ref :: "ref option \<Rightarrow> error + ref" where
  "block_ref block = (case block of None \<Rightarrow> Inl AttributeError | Some b \<Rightarrow> Inr b)"

fun would_collide_loop ::
  "Tetromino \<Rightarrow> Playfield \<Rightarrow> int \<Rightarrow> int \<Rightarrow> ref option list \<Rightarrow> error + bool" where
  "would_collide_loop t pf dx dy [] = Inr False"
| "would_collide_loop t pf dx dy (block # blocks) =
     bind_err (block_ref block) (\<lambda>b.
       let x = x_coord (heap pf ! b) + dx; y = y_coord (heap pf ! b) + dy
       in if \<not> is_in_bounds pf x y then Inr True
          else bind_err (check_cell_empty pf x y) (\<lambda>empty.
                 if \<not> empty then
                   bind_err (get_block pf x y) (\<lambda>block_found.
                     if Some block_found \<notin> set (square_units t) then Inr True
                     else would_collide_loop t pf dx dy blocks)
                 else would_collide_loop t pf dx dy blocks))"

definition would_collide :: "Tetromino \<Rightarrow> Playfield \<Rightarrow> int \<Rightarrow> int \<Rightarrow> error + bool" where
  "would_collide t pf dx dy = would_collide_loop t pf dx dy (square_units t)"

definition is_on_ground :: "Tetromino \<Rightarrow> Playfield \<Rightarrow> error + bool" where
  "is_on_ground t pf = would_collide t pf 0 1"

text \<open>The loop of \<open>setup_blocks\<close>; \<open>Block(...)\<close> allocates a new object.\<close>

fun setup_blocks_loop ::
  "Tetromino \<Rightarrow> Playfield \<Rightarrow> int \<Rightarrow> int \<Rightarrow> (int \<times> int) list \<Rightarrow> int list
     \<Rightarrow> error + Tetromino \<times> Playfield" where
  "setup_blocks_loop t pf pos_x pos_y block_vectors [] = Inr (t, pf)"
| "setup_blocks_loop t pf pos_x pos_y block_vectors (i # is) =
     bind_err (py_get block_vectors i) (\<lambda>vector.
       let x = pos_x + fst vector; y = pos_y + snd vector;
           block = length (heap pf);
           pf' = pf\<lparr>heap := heap pf @ [\<lparr>colour = colour_t t, x_coord = x, y_coord = y\<rparr>]\<rparr>
       in bind_err (py_set (square_units t) i (Some block)) (\<lambda>units.
            setup_blocks_loop (t\<lparr>square_units := units\<rparr>) pf' pos_x pos_y block_vectors is))"

definition setup_blocks ::
  "Tetromino \<Rightarrow> Playfield \<Rightarrow> int \<Rightarrow> int \<Rightarrow> error + Tetromino \<times> Playfield" where
  "setup_blocks t pf pos_x pos_y =
     (let t' = t\<lparr>x_coord_t := pos_x, y_coord_t := pos_y\<rparr>
      in bind_err (py_get (block_positions t') (rotation_index t')) (\<lambda>block_vectors.
           setup_blocks_loop t' pf pos_x pos_y block_vectors
             [0 .. int (length block_vectors) - 1]))"

fun remove_blocks_loop :: "Playfield \<Rightarrow> ref option list \<Rightarrow> error + Playfield" where
  "remove_blocks_loop pf [] = Inr pf"
| "remove_blocks_loop pf (block # blocks) =
     bind_err (block_ref block) (\<lambda>b.
       bind_err (remove_block pf b) (\<lambda>pf'. remove_blocks_loop pf' blocks))"

definition remove_blocks :: "Tetromino \<Rightarrow> Playfield \<Rightarrow> error + Playfield" where
  "remove_blocks t pf = remove_blocks_loop pf (square_units t)"

fun add_to_grid_loop :: "Playfield \<Rightarrow> ref option list \<Rightarrow> error + Playfield" where
  "add_to_grid_loop pf [] = Inr pf"
| "add_to_grid_loop pf (block # blocks) =
     bind_err (block_ref block) (\<lambda>b.
       bind_err (add_block pf b) (\<lambda>pf'. add_to_grid_loop pf' blocks))"

definition add_to_grid :: "Tetromino \<Rightarrow> Playfield \<Rightarrow> error + Playfield" where
  "add_to_grid t pf = add_to_grid_loop pf (square_units t)"

definition get_blocks :: "Tetromino \<Rightarrow> ref option list" where
  "get_blocks t = square_units t"

text \<open>
  The loop \<open>for block in self.square_units: block.shift_left()\<close> (or shift_right,
  shift_down): each block is translated by \<open>(dx, dy)\<close>.
\<close>

fun shift_blocks_loop :: "Playfield \<Rightarrow> int \<Rightarrow> int \<Rightarrow> ref option list \<Rightarrow> error + Playfield" where
  "shift_blocks_loop pf dx dy [] = Inr pf"
| "shift_blocks_loop pf dx dy (block # blocks) =
     bind_err (block_ref block) (\<lambda>b.
       shift_blocks_loop (pf\<lparr>heap := (heap pf)[b := translate (heap pf ! b) dx dy]\<rparr>) dx dy blocks)"

definition shift_left :: "Tetromino \<Rightarrow> Playfield \<Rightarrow> error + Tetromino \<times> Playfield" where
  "shift_left t pf =
     bind_err (would_collide t pf (- 1) 0) (\<lambda>collides.
       if \<not> collides then
         let t' = t\<lparr>x_coord_t := x_coord_t t - 1\<rparr>
         in bind_err (remove_blocks t' pf) (\<lambda>pf1.
            bind_err (shift_blocks_loop pf1 (- 1) 0 (square_units t')) (\<lambda>pf2.
            bind_err (add_to_grid t' pf2) (\<lambda>pf3. Inr (t', pf3))))
       else Inr (t, pf))"

definition shift_right :: "Tetromino \<Rightarrow> Playfield \<Rightarrow> error + Tetromino \<times> Playfield" where
  "shift_right t pf =
     bind_err (would_collide t pf 1 0) (\<lambda>collides.
       if \<not> collides then
         let t' = t\<lparr>x_coord_t := x_coord_t t + 1\<rparr>
         in bind_err (remove_blocks t' pf) (\<lambda>pf1.
            bind_err (shift_blocks_loop pf1 1 0 (square_units t')) (\<lambda>pf2.
            bind_err (add_to_grid t' pf2) (\<lambda>pf3. Inr (t', pf3))))
       else Inr (t, pf))"

definition shift_down :: "Tetromino \<Rightarrow> Playfield \<Rightarrow> error + Tetromino \<times> Playfield" where
  "shift_down t pf =
     (let t' = t\<lparr>y_coord_t := y_coord_t t + 1\<rparr>
      in bind_err (remove_blocks t' pf) (\<lambda>pf1.
         bind_err (shift_blocks_loop pf1 0 1 (square_units t')) (\<lambda>pf2.
         bind_err (add_to_grid t' pf2) (\<lambda>pf3. Inr (t', pf3)))))"

fun can_rotate_loop :: "Tetromino \<Rightarrow> Playfield \<Rightarrow> (int \<times> int) list \<Rightarrow> error + bool" where
  "can_rotate_loop t pf [] = Inr True"
| "can_rotate_loop t pf (vector # block_vectors) =
     (let x = x_coord_t t + fst vector; y = y_coord_t t + snd vector
      in if \<not> is_in_bounds pf x y then Inr False
         else bind_err (check_cell_empty pf x y) (\<lambda>empty.
                if \<not> empty then
                  bind_err (get_block pf x y) (\<lambda>block_found.
                    if Some block_found \<notin> set (square_units t) then Inr False
                    else can_rotate_loop t pf block_vectors)
                else can_rotate_loop t pf block_vectors))"

definition can_rotate :: "Tetromino \<Rightarrow> Playfield \<Rightarrow> int \<Rightarrow> error + bool" where
  "can_rotate t pf dr =
     (let temp_index = rotation_index t + dr;
          n = int (length (block_positions t));
          temp_index = (if temp_index = n then 0
                        else if temp_index = - 1 then n - 1 else temp_index)
      in bind_err (py_get (block_positions t) temp_index) (\<lambda>block_vectors.
           can_rotate_loop t pf block_vectors))"

fun rotate_loop ::
  "Tetromino \<Rightarrow> Playfield \<Rightarrow> (int \<times> int) list \<Rightarrow> int list \<Rightarrow> error + Playfield" where
  "rotate_loop t pf block_vectors [] = Inr pf"
| "rotate_loop t pf block_vectors (i # is) =
     bind_err (py_get (square_units t) i) (\<lambda>block.
     bind_err (py_get block_vectors i) (\<lambda>vector.
       let x = x_coord_t t + fst vector; y = y_coord_t t + snd vector
       in bind_err (block_ref block) (\<lambda>b.
            let pf' = pf\<lparr>heap := (heap pf)[b := set_coords (heap pf ! b) x y]\<rparr>
            in bind_err (add_block pf' b) (\<lambda>pf''. rotate_loop t pf'' block_vectors is))))"

text \<open>Tetromino.rotate, the method of the base class.\<close>

definition Tetromino_rotate ::
  "Tetromino \<Rightarrow> Playfield \<Rightarrow> int \<Rightarrow> error + Tetromino \<times> Playfield" where
  "Tetromino_rotate t pf dr =
     bind_err (can_rotate t pf dr) (\<lambda>ok.
       if \<not> ok then Inr (t, pf)
       else
         let n = int (length (block_positions t));
             index = rotation_index t + dr;
             index = (if index = n then 0 else if index = - 1 then n - 1 else index);
             t' = t\<lparr>rotation_index := index\<rparr>
         in bind_err (py_get (block_positions t') (rotation_index t')) (\<lambda>block_vectors.
            bind_err (remove_blocks t' pf) (\<lambda>pf1.
            bind_err (rotate_loop t' pf1 block_vectors [0 .. int (length (square_units t')) - 1])
              (\<lambda>pf2. Inr (t', pf2)))))"

text \<open>ShapeO.rotate overrides it and does nothing.\<close>

definition ShapeO_rotate ::
  "Tetromino \<Rightarrow> Playfield \<Rightarrow> int \<Rightarrow> error + Tetromino \<times> Playfield" where
  "ShapeO_rotate t pf dr = Inr (t, pf)"

text \<open>The call \<open>piece.rotate(dr)\<close>, dispatched on the class of the instance.\<close>

definition rotate_call ::
  "Tetromino \<Rightarrow> Playfield \<Rightarrow> int \<Rightarrow> error + Tetromino \<times> Playfield" where
  "rotate_call t pf dr =
     (case shape t of ShapeO \<Rightarrow> ShapeO_rotate t pf dr | _ \<Rightarrow> Tetromino_rotate t pf dr)"

definition rotate_clockwise_t ::
  "Tetromino \<Rightarrow> Playfield \<Rightarrow> error + Tetromino \<times> Playfield" where
  "rotate_clockwise_t t pf = rotate_call t pf 1"

definition rotate_anticlockwise_t ::
  "Tetromino \<Rightarrow> Playfield \<Rightarrow> error + Tetromino \<times> Playfield" where
  "rotate_anticlockwise_t t pf = rotate_call t pf (- 1)"

fun get_rows_loop :: "Playfield \<Rightarrow> int list \<Rightarrow> ref option list \<Rightarrow> error + int list" where
  "get_rows_loop pf rows [] = Inr rows"
| "get_rows_loop pf rows (block # blocks) =
     bind_err (block_ref block) (\<lambda>b.
       let y = y_coord (heap pf ! b)
       in if y \<notin> set rows then get_rows_loop pf (rows @ [y]) blocks
          else get_rows_loop pf rows blocks)"

definition get_rows :: "Tetromino \<Rightarrow> Playfield \<Rightarrow> error + int list" where
  "get_rows t pf = bind_err (get_rows_loop pf [] (square_units t)) (\<lambda>rows. Inr (sort rows))"

section \<open>Playfield methods on the active tetromino\<close>

text \<open>A method call on \<open>self.active_tetromino\<close>, which is None until the first spawn.\<close>

definition the_active :: "Playfield \<Rightarrow> error + Tetromino" where
  "the_active pf = (case active_tetromino pf of None \<Rightarrow> Inl AttributeError | Some t \<Rightarrow> Inr t)"

text \<open>The loop of \<open>set_tetromino\<close> that writes the blocks into the matrix unchecked.\<close>

fun set_tetromino_loop :: "Playfield \<Rightarrow> ref option list \<Rightarrow> error + Playfield" where
  "set_tetromino_loop pf [] = Inr pf"
| "set_tetromino_loop pf (block # blocks) =
     bind_err (block_ref block) (\<lambda>b.
       let x = x_coord (heap pf ! b); y = y_coord (heap pf ! b)
       in bind_err (matrix_set pf x y (Some b)) (\<lambda>pf'. set_tetromino_loop pf' blocks))"

definition set_tetromino :: "Playfield \<Rightarrow> Tetromino \<Rightarrow> error + Playfield" where
  "set_tetromino pf next_piece =
     (let pf0 = pf\<lparr>active_tetromino := Some next_piece, tetromino_isactive := True\<rparr>;
          top_left_x = 3;
          top_left_y = 2
      in bind_err (setup_blocks next_piece pf0 top_left_x top_left_y) (\<lambda>(t1, pf1).
         bind_err (would_collide t1 pf1 0 0) (\<lambda>collides.
           if collides then
             let top_left_y = top_left_y - 1
             in bind_err (setup_blocks t1 pf1 top_left_x top_left_y) (\<lambda>(t2, pf2).
                bind_err (would_collide t2 pf2 0 0) (\<lambda>collides.
                  if collides then
                    let pf3 = pf2\<lparr>game_over := True, tetromino_isactive := False\<rparr>
                    in bind_err (set_tetromino_loop pf3 (get_blocks t2)) (\<lambda>pf4.
                         Inr (pf4\<lparr>active_tetromino := Some t2\<rparr>))
                  else bind_err (add_to_grid t2 pf2) (\<lambda>pf3.
                         Inr (pf3\<lparr>active_tetromino := Some t2\<rparr>))))
           else bind_err (add_to_grid t1 pf1) (\<lambda>pf2.
                  Inr (pf2\<lparr>active_tetromino := Some t1\<rparr>)))))"

fun check_lock_out_loop :: "Playfield \<Rightarrow> int list \<Rightarrow> bool" where
  "check_lock_out_loop pf [] = True"
| "check_lock_out_loop pf (row # row_list) =
     (if row > hidden_rows pf - 1 then False else check_lock_out_loop pf row_list)"

definition check_lock_out :: "Playfield \<Rightarrow> error + bool" where
  "check_lock_out pf =
     bind_err (the_active pf) (\<lambda>t.
     bind_err (get_rows t pf) (\<lambda>row_list. Inr (check_lock_out_loop pf row_list)))"

text \<open>Calling the generator function creates the generator; its body has not started.\<close>

definition line_clear_generator :: "int list \<Rightarrow> clear_gen" where
  "line_clear_generator rows =
     \<lparr>pc = At_start, full_rows = rows, num_of_lines = 0, delay_counter = 0\<rparr>"

fun pattern_phase_loop :: "Playfield \<Rightarrow> int list \<Rightarrow> int list \<Rightarrow> error + int list" where
  "pattern_phase_loop pf rows [] = Inr rows"
| "pattern_phase_loop pf rows (row_index # block_rows) =
     bind_err (check_row_full pf row_index) (\<lambda>full.
       if full then pattern_phase_loop pf (rows @ [row_index]) block_rows
       else pattern_phase_loop pf rows block_rows)"

definition pattern_phase :: "Playfield \<Rightarrow> error + Playfield" where
  "pattern_phase pf =
     bind_err (the_active pf) (\<lambda>t.
     bind_err (get_rows t pf) (\<lambda>block_rows.
     bind_err (pattern_phase_loop pf [] block_rows) (\<lambda>rows.
       if int (length rows) > 0
       then Inr (pf\<lparr>in_clear_phase := True,
                     clear_generator := Some (line_clear_generator rows)\<rparr>)
       else Inr pf)))"

definition lock_tetromino :: "Playfield \<Rightarrow> error + Playfield" where
  "lock_tetromino pf =
     (let pf' = pf\<lparr>lock_counter := 0, tetromino_isactive := False, in_lock_phase := False\<rparr>
      in bind_err (check_lock_out pf') (\<lambda>locked_out.
           if locked_out then Inr (pf'\<lparr>game_over := True\<rparr>) else pattern_phase pf'))"

text \<open>GameInterfaceModel.add_soft_drop_point: one point on the score panel.\<close>

definition add_soft_drop_point :: "GameInterfaceModel \<Rightarrow> GameInterfaceModel" where
  "add_soft_drop_point m = m\<lparr>score := score m + 1\<rparr>"

definition drop_phase :: "Playfield \<Rightarrow> error + Playfield" where
  "drop_phase pf =
     (if gravity_counter pf > gravity pf then
        bind_err (the_active pf) (\<lambda>t.
        bind_err (is_on_ground t pf) (\<lambda>on_ground.
        bind_err
          (if on_ground then Inr (pf\<lparr>in_lock_phase := True\<rparr>)
           else bind_err (shift_down t (pf\<lparr>in_lock_phase := False\<rparr>)) (\<lambda>(t', pf1).
                  let pf2 = pf1\<lparr>active_tetromino := Some t', lock_counter := 0\<rparr>
                  in if soft_drop_isactive pf2
                     then Inr (pf2\<lparr>model := add_soft_drop_point (model pf2)\<rparr>)
                     else Inr pf2))
          (\<lambda>pf'. Inr (pf'\<lparr>gravity_counter := 0\<rparr>))))
      else
        bind_err (the_active pf) (\<lambda>t.
        bind_err (is_on_ground t pf) (\<lambda>on_ground.
          if \<not> on_ground
          then Inr (pf\<lparr>in_lock_phase := False, gravity_counter := gravity_counter pf + 1\<rparr>)
          else if in_lock_phase pf then Inr (pf\<lparr>gravity_counter := 0\<rparr>)
          else Inr (pf\<lparr>gravity_counter := gravity_counter pf + 1\<rparr>))))"

section \<open>Line clearing\<close>

text \<open>The inner loop of \<open>shift_rows_down\<close> over \<open>range(start_row, end_row)\<close>.\<close>

fun shift_rows_down_inner ::
  "Playfield \<Rightarrow> ref option list \<Rightarrow> int list \<Rightarrow> error + Playfield" where
  "shift_rows_down_inner pf temp_blocks [] = Inr pf"
| "shift_rows_down_inner pf temp_blocks (y # ys) =
     bind_err (py_get (matrix pf) (y + 1)) (\<lambda>blocks.
     bind_err (py_set (matrix pf) (y + 1) temp_blocks) (\<lambda>m.
       shift_rows_down_inner (pf\<lparr>matrix := m\<rparr>) blocks ys))"

text \<open>Its outer loop over \<open>range(0, len(full_rows))\<close>.\<close>

fun shift_rows_down_loop :: "Playfield \<Rightarrow> int list \<Rightarrow> int list \<Rightarrow> error + Playfield" where
  "shift_rows_down_loop pf rows [] = Inr pf"
| "shift_rows_down_loop pf rows (i # is) =
     bind_err (get_top_block_row pf) (\<lambda>start_row.
     bind_err (py_get rows i) (\<lambda>end_row.
     bind_err (py_get (matrix pf) start_row) (\<lambda>temp_blocks.
     bind_err (clear_row pf start_row) (\<lambda>pf1.
     bind_err (shift_rows_down_inner pf1 temp_blocks [start_row .. end_row - 1]) (\<lambda>pf2.
       shift_rows_down_loop pf2 rows is)))))"

definition shift_rows_down :: "Playfield \<Rightarrow> int list \<Rightarrow> error + Playfield" where
  "shift_rows_down pf rows =
     bind_err (check_grid_empty pf) (\<lambda>empty.
       if empty then Inr pf
       else shift_rows_down_loop pf rows [0 .. int (length rows) - 1])"

text \<open>LevelPanel.update_level, ScorePanel.score_lines and GameInterfaceModel.increase_lines.\<close>

fun update_level_loop :: "LevelPanel \<Rightarrow> nat \<Rightarrow> LevelPanel" where
  "update_level_loop lp 0 = lp"
| "update_level_loop lp (Suc k) =
     (let lp1 = lp\<lparr>lines_left := lines_left lp - 1\<rparr>;
          lp2 = (if lines_left lp1 = 0
                 then lp1\<lparr>level := level lp1 + 1, lines_left := lines_to_level lp1\<rparr>
                 else lp1)
      in update_level_loop lp2 k)"

definition update_level :: "LevelPanel \<Rightarrow> int \<Rightarrow> LevelPanel" where
  "update_level lp n = update_level_loop lp (nat n)"

definition score_lines :: "int \<Rightarrow> int \<Rightarrow> int \<Rightarrow> int" where
  "score_lines sc n lvl =
     sc + (if n = 1 then 40 else if n = 2 then 100 else if n = 3 then 300
           else if n = 4 then 1200 else 0) * lvl"

definition increase_lines :: "GameInterfaceModel \<Rightarrow> int \<Rightarrow> GameInterfaceModel" where
  "increase_lines m n =
     m\<lparr>lines := lines m + n,
       score := score_lines (score m) n (level (level_panel m)),
       level_panel := update_level (level_panel m) n,
       lines_received := lines_received m @ [n]\<rparr>"

text \<open>
  The body of \<open>line_clear_generator\<close>, cut at its yields. \<open>calculate_gravity\<close> is the
  model's method of that name as a function of the current level; the source computes it
  in floating point.
\<close>

fun clear_cells_loop :: "Playfield \<Rightarrow> int \<Rightarrow> int list \<Rightarrow> error + Playfield" where
  "clear_cells_loop pf x [] = Inr pf"
| "clear_cells_loop pf x (row_index # rows) =
     bind_err (matrix_set pf x row_index None) (\<lambda>pf'. clear_cells_loop pf' x rows)"

definition clear_finish :: "(int \<Rightarrow> int) \<Rightarrow> Playfield \<Rightarrow> clear_gen \<Rightarrow> error + Playfield" where
  "clear_finish calculate_gravity pf g =
     bind_err (shift_rows_down pf (full_rows g)) (\<lambda>pf1.
       let pf2 = pf1\<lparr>in_clear_phase := False\<rparr>;
           pf3 = pf2\<lparr>model := increase_lines (model pf2) (num_of_lines g)\<rparr>;
           pf4 = (if \<not> soft_drop_isactive pf3
                  then pf3\<lparr>gravity := calculate_gravity (level (level_panel (model pf3)))\<rparr>
                  else pf3)
       in Inr (pf4\<lparr>clear_generator := Some (g\<lparr>pc := At_end_yield\<rparr>)\<rparr>))"

definition clear_delay_loop :: "(int \<Rightarrow> int) \<Rightarrow> Playfield \<Rightarrow> clear_gen \<Rightarrow> error + Playfield" where
  "clear_delay_loop calculate_gravity pf g =
     (if delay_counter g \<le> clear_delay pf
      then Inr (pf\<lparr>clear_generator :=
                     Some (g\<lparr>delay_counter := delay_counter g + 1, pc := At_delay_yield\<rparr>)\<rparr>)
      else clear_finish calculate_gravity pf g)"

definition clear_column_loop ::
  "(int \<Rightarrow> int) \<Rightarrow> Playfield \<Rightarrow> clear_gen \<Rightarrow> int list \<Rightarrow> error + Playfield" where
  "clear_column_loop calculate_gravity pf g columns =
     (case columns of
        [] \<Rightarrow> clear_delay_loop calculate_gravity pf g
      | x # xs \<Rightarrow>
          bind_err (clear_cells_loop pf x (full_rows g)) (\<lambda>pf'.
            Inr (pf'\<lparr>clear_generator :=
                       Some (g\<lparr>delay_counter := delay_counter g + 1,
                               pc := At_column_yield xs\<rparr>)\<rparr>)))"

definition clear_interval_loop ::
  "(int \<Rightarrow> int) \<Rightarrow> Playfield \<Rightarrow> clear_gen \<Rightarrow> int list \<Rightarrow> int list \<Rightarrow> error + Playfield" where
  "clear_interval_loop calculate_gravity pf g frames columns =
     (case frames of
        [] \<Rightarrow> clear_column_loop calculate_gravity pf g columns
      | i # frames' \<Rightarrow>
          Inr (pf\<lparr>clear_generator :=
                    Some (g\<lparr>delay_counter := delay_counter g + 1,
                            pc := At_interval_yield frames' columns\<rparr>)\<rparr>))"

text \<open>\<open>next(self.clear_generator)\<close>: run the generator to its next yield.\<close>

definition next_clear :: "(int \<Rightarrow> int) \<Rightarrow> Playfield \<Rightarrow> error + Playfield" where
  "next_clear calculate_gravity pf =
     (case clear_generator pf of
        None \<Rightarrow> Inl TypeError
      | Some g \<Rightarrow>
          (case pc g of
             At_start \<Rightarrow>
               clear_column_loop calculate_gravity pf
                 (g\<lparr>delay_counter := 0, num_of_lines := int (length (full_rows g))\<rparr>)
                 [0 .. grid_width pf - 1]
           | At_column_yield columns \<Rightarrow>
               (let frame_interval = 1
                in clear_interval_loop calculate_gravity pf g [0 .. frame_interval - 1] columns)
           | At_interval_yield frames columns \<Rightarrow>
               clear_interval_loop calculate_gravity pf g frames columns
           | At_delay_yield \<Rightarrow> clear_delay_loop calculate_gravity pf g
           | At_end_yield \<Rightarrow> Inr pf))"

text \<open>\<open>n\<close> successive calls of \<open>next(self.clear_generator)\<close>, one per frame.\<close>

fun next_clear_times :: "(int \<Rightarrow> int) \<Rightarrow> nat \<Rightarrow> Playfield \<Rightarrow> error + Playfield" where
  "next_clear_times calculate_gravity 0 pf = Inr pf"
| "next_clear_times calculate_gravity (Suc n) pf =
     bind_err (next_clear calculate_gravity pf) (next_clear_times calculate_gravity n)"

section \<open>The bag randomizer\<close>

definition get_tetromino_set :: "Shape list" where
  "get_tetromino_set = [ShapeI, ShapeJ, ShapeL, ShapeO, ShapeS, ShapeT, ShapeZ]"

text \<open>
  \<open>random.shuffle\<close> is the standard library's: for \<open>i\<close> from \<open>len(x) - 1\<close> down to 1
  it draws \<open>j\<close> in \<open>[0, i]\<close> and swaps \<open>x[i]\<close> and \<open>x[j]\<close>. The random source is the
  parameter \<open>rnd\<close>: the \<open>c\<close>-th draw below \<open>i + 1\<close> is \<open>rnd c mod (i + 1)\<close>, so every
  sequence of draws is some \<open>rnd\<close>.
\<close>

fun shuffle_loop :: "(nat \<Rightarrow> nat) \<Rightarrow> nat \<Rightarrow> 'a list \<Rightarrow> nat list \<Rightarrow> 'a list \<times> nat" where
  "shuffle_loop rnd c x [] = (x, c)"
| "shuffle_loop rnd c x (i # is) =
     (let j = rnd c mod (i + 1)
      in shuffle_loop rnd (c + 1) (x[i := x ! j, j := x ! i]) is)"

definition shuffle :: "(nat \<Rightarrow> nat) \<Rightarrow> nat \<Rightarrow> 'a list \<Rightarrow> 'a list \<times> nat" where
  "shuffle rnd c x = shuffle_loop rnd c x (rev [1 ..< length x])"

text \<open>
  The suspended state of \<open>random_generator\<close>: what is left of the bag the for loop is
  walking, and the number of random draws made so far. \<open>next_random\<close> is \<open>next()\<close> on
  it; None stands for a call that never yields (an empty bag, reshuffled for ever).
\<close>

record random_gen =
  bag_rest :: "Shape list"
  draws :: nat

definition random_generator :: random_gen where
  "random_generator = \<lparr>bag_rest = [], draws = 0\<rparr>"

definition next_random :: "(nat \<Rightarrow> nat) \<Rightarrow> random_gen \<Rightarrow> (Tetromino \<times> random_gen) option" where
  "next_random rnd g =
     (case bag_rest g of
        tetromino # rest \<Rightarrow> Some (new_tetromino tetromino, g\<lparr>bag_rest := rest\<rparr>)
      | [] \<Rightarrow>
          (case shuffle rnd (draws g) get_tetromino_set of
             (tetromino # rest, c) \<Rightarrow> Some (new_tetromino tetromino, \<lparr>bag_rest = rest, draws = c\<rparr>)
           | ([], c) \<Rightarrow> None))"

text \<open>The first \<open>n\<close> pieces the generator yields.\<close>

fun random_take :: "(nat \<Rightarrow> nat) \<Rightarrow> nat \<Rightarrow> random_gen \<Rightarrow> (Tetromino list \<times> random_gen) option" where
  "random_take rnd 0 g = Some ([], g)"
| "random_take rnd (Suc n) g =
     (case next_random rnd g of
        None \<Rightarrow> None
      | Some (t, g') \<Rightarrow>
          (case random_take rnd n g' of
             None \<Rightarrow> None
           | Some (ts, g'') \<Rightarrow> Some (t # ts, g'')))"

section \<open>Well-formed states\<close>

text \<open>
  What Playfield.__init__ establishes and every method keeps: the dimensions and delays
  are the constructor's constants, and the matrix has \<open>grid_height\<close> rows of
  \<open>grid_width\<close> cells.
\<close>

definition wf_playfield :: "Playfield \<Rightarrow> bool" where
  "wf_playfield pf \<longleftrightarrow>
     grid_width pf = 10 \<and> grid_height pf = 22 \<and> hidden_rows pf = 2 \<and> clear_delay pf = 40 \<and>
     length (matrix pf) = 22 \<and> list_all (\<lambda>row. length row = 10) (matrix pf)"

text \<open>The content of the cell in column \<open>x\<close> of row \<open>y\<close>, for a position on the grid.\<close>

definition cell :: "Playfield \<Rightarrow> int \<Rightarrow> int \<Rightarrow> ref option" where
  "cell pf x y = matrix pf ! nat y ! nat x"

text \<open>
  A position collides for a piece: it is off the grid, or it holds a block that is not one
  of the piece's own.
\<close>

definition collides_at :: "Tetromino \<Rightarrow> Playfield \<Rightarrow> int \<Rightarrow> int \<Rightarrow> bool" where
  "collides_at t pf x y \<longleftrightarrow>
     x < 0 \<or> x \<ge> grid_width pf \<or> y < 0 \<or> y \<ge> grid_height pf \<or>
     (cell pf x y \<noteq> None \<and> cell pf x y \<notin> set (square_units t))"

text \<open>All four square units of the piece have been set up.\<close>

definition units_set_up :: "Tetromino \<Rightarrow> bool" where
  "units_set_up t \<longleftrightarrow> length (square_units t) = 4 \<and> list_all (\<lambda>b. b \<noteq> None) (square_units t)"

text \<open>The positions of the piece's blocks, in the order of \<open>square_units\<close>.\<close>

definition block_cells :: "Tetromino \<Rightarrow> Playfield \<Rightarrow> (int \<times> int) list" where
  "block_cells t pf =
     map (\<lambda>block. (x_coord (heap pf ! the block), y_coord (heap pf ! the block)))
       (square_units t)"

text \<open>
  A piece as the subclass constructors and \<open>rotate\<close> keep it: the table of its class and
  a rotation index inside the table.
\<close>

definition wf_tetromino :: "Tetromino \<Rightarrow> bool" where
  "wf_tetromino t \<longleftrightarrow>
     units_set_up t \<and> block_positions t = shape_positions (shape t) \<and>
     0 \<le> rotation_index t \<and> rotation_index t < int (length (block_positions t))"

text \<open>
  The rotation state \<open>(current + dr) mod state_count\<close> and the cells it would occupy
  at the piece's origin.
\<close>

definition candidate_state :: "Tetromino \<Rightarrow> int \<Rightarrow> (int \<times> int) list" where
  "candidate_state t dr =
     block_positions t ! nat ((rotation_index t + dr) mod int (length (block_positions t)))"

definition candidate_cells :: "Tetromino \<Rightarrow> int \<Rightarrow> (int \<times> int) list" where
  "candidate_cells t dr =
     map (\<lambda>vector. (x_coord_t t + fst vector, y_coord_t t + snd vector)) (candidate_state t dr)"

text \<open>A position on the 10 by 22 grid.\<close>

definition on_grid :: "int \<times> int \<Rightarrow> bool" where
  "on_grid p \<longleftrightarrow> 0 \<le> fst p \<and> fst p < 10 \<and> 0 \<le> snd p \<and> snd p < 22"

text \<open>The position a block object records for itself.\<close>

definition unit_cell :: "Playfield \<Rightarrow> ref option \<Rightarrow> int \<times> int" where
  "unit_cell pf block = (x_coord (heap pf ! the block), y_coord (heap pf ! the block))"

text \<open>The playfield after the assignment \<open>self.matrix[y][x] = v\<close> at a position on the grid.\<close>

definition write_cell :: "Playfield \<Rightarrow> int \<times> int \<Rightarrow> ref option \<Rightarrow> Playfield" where
  "write_cell pf p v =
     pf\<lparr>matrix := (matrix pf)[nat (snd p) := (matrix pf ! nat (snd p))[nat (fst p) := v]]\<rparr>"

text \<open>The position \<open>rotate\<close> gives the block of index \<open>i\<close>: the origin plus vector \<open>i\<close>.\<close>

definition rotate_target :: "Tetromino \<Rightarrow> (int \<times> int) list \<Rightarrow> int \<Rightarrow> int \<times> int" where
  "rotate_target t block_vectors i =
     (x_coord_t t + fst (block_vectors ! nat i), y_coord_t t + snd (block_vectors ! nat i))"

text \<open>Two playfields that differ at most in the matrix, or in the matrix and the blocks.\<close>

definition same_but_matrix :: "Playfield \<Rightarrow> Playfield \<Rightarrow> bool" where
  "same_but_matrix pf pf' \<longleftrightarrow> pf' = pf\<lparr>matrix := matrix pf'\<rparr>"

definition same_but_grid :: "Playfield \<Rightarrow> Playfield \<Rightarrow> bool" where
  "same_but_grid pf pf' \<longleftrightarrow> pf' = pf\<lparr>matrix := matrix pf', heap := heap pf'\<rparr>"

text \<open>
  The piece is on the grid as \<open>setup_blocks\<close>, \<open>add_to_grid\<close>, the shifts and \<open>rotate\<close>
  leave it: four distinct allocated blocks, at the origin plus the vectors of the current
  rotation state, all on the grid; the matrix holds each block at its position, and holds
  the piece's blocks nowhere else.
\<close>

definition piece_placed :: "Tetromino \<Rightarrow> Playfield \<Rightarrow> bool" where
  "piece_placed t pf \<longleftrightarrow>
     wf_tetromino t \<and> distinct (square_units t) \<and>
     list_all (\<lambda>u. the u < length (heap pf)) (square_units t) \<and>
     block_cells t pf = candidate_cells t 0 \<and>
     list_all on_grid (block_cells t pf) \<and>
     list_all (\<lambda>u. cell pf (fst (unit_cell pf u)) (snd (unit_cell pf u)) = u) (square_units t) \<and>
     list_all (\<lambda>y. list_all (\<lambda>x. cell pf x y \<notin> set (square_units t) \<or>
                                  (x, y) \<in> set (block_cells t pf)) [0 .. 9]) [0 .. 21]"

text \<open>
  The cells of a new piece (rotation state 0) with its origin at column 3 of row \<open>y0\<close>,
  whether a cell holds a block, and the soundness of the object store: every reference in
  the matrix is to an allocated block.
\<close>

definition spawn_cells :: "Shape \<Rightarrow> int \<Rightarrow> (int \<times> int) list" where
  "spawn_cells s y0 = map (\<lambda>vector. (3 + fst vector, y0 + snd vector)) (shape_positions s ! 0)"

definition occupied :: "Playfield \<Rightarrow> int \<times> int \<Rightarrow> bool" where
  "occupied pf p \<longleftrightarrow> cell pf (fst p) (snd p) \<noteq> None"

definition refs_allocated :: "Playfield \<Rightarrow> bool" where
  "refs_allocated pf \<longleftrightarrow>
     list_all (list_all (\<lambda>c. case c of None \<Rightarrow> True | Some r \<Rightarrow> r < length (heap pf))) (matrix pf)"

text \<open>A row after the sweep of \<open>line_clear_generator\<close> has emptied the given columns.\<close>

definition swept_row :: "ref option list \<Rightarrow> int list \<Rightarrow> ref option list" where
  "swept_row row columns = fold (\<lambda>x row. row[nat x := None]) columns row"

subsection \<open>Concrete states\<close>

text \<open>
  An I piece lying on the floor against the left wall (cells (0..3, 21)), with one locked
  block to its right at (4, 21); every other cell is empty.
\<close>

definition I_on_floor :: Tetromino where
  "I_on_floor = (new_tetromino ShapeI)\<lparr>x_coord_t := 0, y_coord_t := 21,
     square_units := [Some 0, Some 1, Some 2, Some 3]\<rparr>"

definition floor_playfield :: Playfield where
  "floor_playfield =
     (new_Playfield 60)\<lparr>
        active_tetromino := Some I_on_floor,
        tetromino_isactive := True,
        heap := [\<lparr>colour = CYAN, x_coord = 0, y_coord = 21\<rparr>,
                 \<lparr>colour = CYAN, x_coord = 1, y_coord = 21\<rparr>,
                 \<lparr>colour = CYAN, x_coord = 2, y_coord = 21\<rparr>,
                 \<lparr>colour = CYAN, x_coord = 3, y_coord = 21\<rparr>,
                 \<lparr>colour = RED, x_coord = 4, y_coord = 21\<rparr>],
        matrix := replicate 21 (replicate 10 None) @
                  [[Some 0, Some 1, Some 2, Some 3, Some 4, None, None, None, None, None]]\<rparr>"

text \<open>
  An I piece at the retried spawn origin (3, 1), all of it in the hidden rows, resting on a
  column of twenty locked blocks in column 4 (rows 2 to 21).
\<close>

definition I_hidden :: Tetromino where
  "I_hidden = (new_tetromino ShapeI)\<lparr>x_coord_t := 3, y_coord_t := 1,
     square_units := [Some 0, Some 1, Some 2, Some 3]\<rparr>"

definition lock_out_playfield :: Playfield where
  "lock_out_playfield =
     (new_Playfield 60)\<lparr>
        active_tetromino := Some I_hidden,
        tetromino_isactive := True,
        in_lock_phase := True,
        heap := [\<lparr>colour = CYAN, x_coord = 3, y_coord = 1\<rparr>,
                 \<lparr>colour = CYAN, x_coord = 4, y_coord = 1\<rparr>,
                 \<lparr>colour = CYAN, x_coord = 5, y_coord = 1\<rparr>,
                 \<lparr>colour = CYAN, x_coord = 6, y_coord = 1\<rparr>] @
                map (\<lambda>y. \<lparr>colour = RED, x_coord = 4, y_coord = int y\<rparr>) [2 ..< 22],
        matrix := [replicate 10 None,
                   [None, None, None, Some 0, Some 1, Some 2, Some 3, None, None, None]] @
                  map (\<lambda>y. [None, None, None, None, Some (y + 2), None, None, None, None, None])
                    [2 ..< 22]\<rparr>"

text \<open>
  A random source whose first six draws are 0 and whose next six are 6, 5, 4, 3, 2, 1:
  the first bag comes out as J L O S T Z I, the second unshuffled as I J L O S T Z.
\<close>

definition two_bags_rnd :: "nat \<Rightarrow> nat" where
  "two_bags_rnd c = (if c < 6 then 0 else 12 - c)"

text \<open>A T piece just spawned at (3, 2) on an otherwise empty grid.\<close>

definition T_spawned :: Tetromino where
  "T_spawned = (new_tetromino ShapeT)\<lparr>x_coord_t := 3, y_coord_t := 2,
     square_units := [Some 0, Some 1, Some 2, Some 3]\<rparr>"

definition spawn_playfield :: Playfield where
  "spawn_playfield =
     (new_Playfield 60)\<lparr>
        active_tetromino := Some T_spawned,
        tetromino_isactive := True,
        heap := [\<lparr>colour = PURPLE, x_coord = 4, y_coord = 2\<rparr>,
                 \<lparr>colour = PURPLE, x_coord = 3, y_coord = 3\<rparr>,
                 \<lparr>colour = PURPLE, x_coord = 4, y_coord = 3\<rparr>,
                 \<lparr>colour = PURPLE, x_coord = 5, y_coord = 3\<rparr>],
        matrix := [replicate 10 None, replicate 10 None,
                   [None, None, None, None, Some 0, None, None, None, None, None],
                   [None, None, None, Some 1, Some 2, Some 3, None, None, None, None]] @
                  replicate 18 (replicate 10 None)\<rparr>"


text \<open>
  An idle playfield whose only blocks are a column of locked blocks in column 4, from row
  \<open>k\<close> down to the floor.
\<close>

definition column_playfield :: "nat \<Rightarrow> Playfield" where
  "column_playfield k =
     (new_Playfield 60)\<lparr>
        heap := map (\<lambda>y. \<lparr>colour = RED, x_coord = 4, y_coord = int y\<rparr>) [k ..< 22],
        matrix := replicate k (replicate 10 None) @
                  map (\<lambda>i. [None, None, None, None, Some i, None, None, None, None, None])
                    [0 ..< 22 - k]\<rparr>"

section \<open>Basic facts\<close>

lemma bind_err_Inr [simp]: "bind_err (Inr v) f = f v"
  by (simp add: bind_err_def)

lemma bind_err_Inl [simp]: "bind_err (Inl e) f = Inl e"
  by (simp add: bind_err_def)

lemma py_index_in [simp]: "0 \<le> i \<Longrightarrow> i < int (length xs) \<Longrightarrow> py_index xs i = Some (nat i)"
  by (simp add: py_index_def)

lemma py_get_in [simp]: "0 \<le> i \<Longrightarrow> i < int (length xs) \<Longrightarrow> py_get xs i = Inr (xs ! nat i)"
  by (simp add: py_get_def)

lemma py_set_in [simp]:
  "0 \<le> i \<Longrightarrow> i < int (length xs) \<Longrightarrow> py_set xs i v = Inr (xs[nat i := v])"
  by (simp add: py_set_def)

lemma py_get_out:
  "i \<ge> int (length xs) \<or> i < - int (length xs) \<Longrightarrow> py_get xs i = Inl IndexError"
  by (auto simp: py_get_def py_index_def)

lemma py_get_neg:
  "- int (length xs) \<le> i \<Longrightarrow> i < 0 \<Longrightarrow> py_get xs i = py_get xs (i + int (length xs))"
  by (auto simp: py_get_def py_index_def Let_def add.commute)

lemma wf_row_length: "wf_playfield pf \<Longrightarrow> j < 22 \<Longrightarrow> length (matrix pf ! j) = 10"
  by (simp add: wf_playfield_def list_all_length)

lemma is_in_bounds_iff:
  "wf_playfield pf \<Longrightarrow> is_in_bounds pf x y \<longleftrightarrow> 0 \<le> x \<and> x < 10 \<and> 0 \<le> y \<and> y < 22"
  by (auto simp: is_in_bounds_def wf_playfield_def)

lemma matrix_get_in:
  "wf_playfield pf \<Longrightarrow> 0 \<le> x \<Longrightarrow> x < 10 \<Longrightarrow> 0 \<le> y \<Longrightarrow> y < 22 \<Longrightarrow>
   matrix_get pf x y = Inr (cell pf x y)"
  by (simp add: matrix_get_def cell_def wf_playfield_def list_all_length)

lemma matrix_set_in:
  "wf_playfield pf \<Longrightarrow> 0 \<le> x \<Longrightarrow> x < 10 \<Longrightarrow> 0 \<le> y \<Longrightarrow> y < 22 \<Longrightarrow>
   matrix_set pf x y v =
     Inr (pf\<lparr>matrix := (matrix pf)[nat y := (matrix pf ! nat y)[nat x := v]]\<rparr>)"
  by (simp add: matrix_set_def wf_playfield_def list_all_length)

lemma py_index_row:
  "wf_playfield pf \<Longrightarrow> - 22 \<le> y \<Longrightarrow> y < 22 \<Longrightarrow>
   py_index (matrix pf) y = Some (nat (if 0 \<le> y then y else 22 + y))"
  by (simp add: py_index_def wf_playfield_def)

lemma matrix_get_out:
  assumes "wf_playfield pf" "x \<ge> 10 \<or> x < - 10 \<or> y \<ge> 22 \<or> y < - 22"
  shows "matrix_get pf x y = Inl IndexError"
proof (cases "y \<ge> 22 \<or> y < - 22")
  case True
  with assms(1) show ?thesis
    by (simp add: matrix_get_def py_get_out wf_playfield_def)
next
  case False
  define j where "j = nat (if 0 \<le> y then y else 22 + y)"
  have j: "py_index (matrix pf) y = Some j" "j < 22"
    using assms(1) False by (auto simp: j_def py_index_row)
  have "length (matrix pf ! j) = 10" using assms(1) j by (simp add: wf_row_length)
  moreover have "x \<ge> 10 \<or> x < - 10" using assms(2) False by auto
  ultimately show ?thesis using j
    by (simp add: matrix_get_def py_get_def[of "matrix pf"] py_get_out)
qed

lemma matrix_get_wrap:
  assumes "wf_playfield pf" "- 10 \<le> x" "x < 0" "- 22 \<le> y" "y < 0"
  shows "matrix_get pf x y = Inr (cell pf (x + 10) (y + 22))"
proof -
  have j: "py_index (matrix pf) y = Some (nat (22 + y))"
    using assms by (simp add: py_index_row)
  have "length (matrix pf ! nat (22 + y)) = 10" using assms by (simp add: wf_row_length)
  then have "py_get (matrix pf ! nat (22 + y)) x = Inr (matrix pf ! nat (22 + y) ! nat (10 + x))"
    using assms by (simp add: py_get_def py_index_def)
  then show ?thesis using j
    by (simp add: matrix_get_def py_get_def[of "matrix pf"] cell_def add.commute)
qed

subsection \<open>Collision tests\<close>

lemma would_collide_loop_step:
  assumes "wf_playfield pf"
  shows "would_collide_loop t pf dx dy (Some r # bs) =
     (if collides_at t pf (x_coord (heap pf ! r) + dx) (y_coord (heap pf ! r) + dy)
      then Inr True else would_collide_loop t pf dx dy bs)"
proof (cases "is_in_bounds pf (x_coord (heap pf ! r) + dx) (y_coord (heap pf ! r) + dy)")
  case False
  then show ?thesis using assms
    by (auto simp: block_ref_def Let_def collides_at_def is_in_bounds_iff wf_playfield_def)
next
  case True
  then have inb: "0 \<le> x_coord (heap pf ! r) + dx" "x_coord (heap pf ! r) + dx < 10"
    "0 \<le> y_coord (heap pf ! r) + dy" "y_coord (heap pf ! r) + dy < 22"
    using assms by (simp_all add: is_in_bounds_iff)
  have wf10: "grid_width pf = 10" "grid_height pf = 22"
    using assms by (simp_all add: wf_playfield_def)
  show ?thesis
  proof (cases "cell pf (x_coord (heap pf ! r) + dx) (y_coord (heap pf ! r) + dy)")
    case None
    then show ?thesis using True inb
      by (simp add: block_ref_def Let_def collides_at_def wf10 check_cell_empty_def
          matrix_get_in[OF assms])
  next
    case (Some b)
    then show ?thesis using True inb
      by (simp add: block_ref_def Let_def collides_at_def wf10 check_cell_empty_def
          get_block_def matrix_get_in[OF assms])
  qed
qed

lemma would_collide_loop_eq:
  assumes "wf_playfield pf"
  shows "list_all (\<lambda>b. b \<noteq> None) bs \<Longrightarrow>
    would_collide_loop t pf dx dy bs =
      Inr (\<exists>b. Some b \<in> set bs \<and>
             collides_at t pf (x_coord (heap pf ! b) + dx) (y_coord (heap pf ! b) + dy))"
proof (induction bs)
  case Nil
  show ?case by simp
next
  case (Cons a bs)
  then obtain r where a: "a = Some r" by auto
  from Cons have IH: "would_collide_loop t pf dx dy bs =
      Inr (\<exists>b. Some b \<in> set bs \<and>
             collides_at t pf (x_coord (heap pf ! b) + dx) (y_coord (heap pf ! b) + dy))"
    by simp
  show ?case unfolding a would_collide_loop_step[OF assms] IH
    by auto
qed

lemma would_collide_eq:
  "wf_playfield pf \<Longrightarrow> units_set_up t \<Longrightarrow>
   would_collide t pf dx dy =
     Inr (\<exists>b. Some b \<in> set (square_units t) \<and>
            collides_at t pf (x_coord (heap pf ! b) + dx) (y_coord (heap pf ! b) + dy))"
  by (simp add: would_collide_def units_set_up_def would_collide_loop_eq)

lemma wf_floor_playfield: "wf_playfield floor_playfield"
  by (simp add: wf_playfield_def floor_playfield_def new_Playfield_def list_all_iff)

lemma units_I_on_floor: "units_set_up I_on_floor"
  by (simp add: units_set_up_def I_on_floor_def)

subsection \<open>Writing cells\<close>

lemma wf_write_cell: "wf_playfield pf \<Longrightarrow> wf_playfield (write_cell pf p v)"
proof (cases "nat (snd p) < length (matrix pf)")
  case True
  assume "wf_playfield pf"
  then show ?thesis using True
    by (auto simp: wf_playfield_def write_cell_def list_all_length nth_list_update)
next
  case False
  assume "wf_playfield pf"
  then show ?thesis using False
    by (simp add: wf_playfield_def write_cell_def list_update_beyond)
qed

lemma cell_write_cell:
  assumes "wf_playfield pf" "on_grid p" "on_grid (x, y)"
  shows "cell (write_cell pf p v) x y = (if (x, y) = p then v else cell pf x y)"
proof -
  have k: "nat (snd p) < 22" using assms(2) unfolding on_grid_def by linarith
  have l: "length (matrix pf) = 22" "length (matrix pf ! nat (snd p)) = 10"
    using assms(1) wf_row_length[OF assms(1) k]
    by (simp_all add: wf_playfield_def)
  have e: "nat y = nat (snd p) \<longleftrightarrow> y = snd p" "nat x = nat (fst p) \<longleftrightarrow> x = fst p"
    using assms(2,3) by (auto simp: on_grid_def)
  show ?thesis using assms(2,3) l
    by (cases p) (auto simp: cell_def write_cell_def on_grid_def nth_list_update e)
qed

lemma write_cell_fields [simp]:
  "heap (write_cell pf p v) = heap pf"
  "grid_width (write_cell pf p v) = grid_width pf"
  "grid_height (write_cell pf p v) = grid_height pf"
  by (simp_all add: write_cell_def)

lemma unit_cell_write_cell [simp]: "unit_cell (write_cell pf p v) = unit_cell pf"
  by (rule ext) (simp add: unit_cell_def)

lemma matrix_set_on_grid:
  "wf_playfield pf \<Longrightarrow> on_grid (x, y) \<Longrightarrow> matrix_set pf x y v = Inr (write_cell pf (x, y) v)"
  by (simp add: on_grid_def matrix_set_in write_cell_def)

lemma matrix_get_on_grid:
  "wf_playfield pf \<Longrightarrow> on_grid (x, y) \<Longrightarrow> matrix_get pf x y = Inr (cell pf x y)"
  by (simp add: on_grid_def matrix_get_in)

lemma add_block_ok:
  assumes "wf_playfield pf" "on_grid (unit_cell pf (Some b))"
    "cell pf (fst (unit_cell pf (Some b))) (snd (unit_cell pf (Some b))) = None"
  shows "add_block pf b = Inr (write_cell pf (unit_cell pf (Some b)) (Some b))"
  using assms
  by (simp add: add_block_def Let_def check_cell_empty_def unit_cell_def
      matrix_get_on_grid matrix_set_on_grid)

lemma remove_block_ok:
  assumes "wf_playfield pf" "on_grid (unit_cell pf (Some b))"
    "cell pf (fst (unit_cell pf (Some b))) (snd (unit_cell pf (Some b))) = Some b"
  shows "remove_block pf b = Inr (write_cell pf (unit_cell pf (Some b)) None)"
  using assms
  by (simp add: remove_block_def check_block_position_def Let_def unit_cell_def
      matrix_get_on_grid matrix_set_on_grid)

lemma same_but_matrix_refl [simp]: "same_but_matrix pf pf"
  by (simp add: same_but_matrix_def)

lemma same_but_matrix_write: "same_but_matrix pf pf' \<Longrightarrow> same_but_matrix pf (write_cell pf' p v)"
  unfolding same_but_matrix_def write_cell_def
  by (metis (no_types, lifting) Playfield.surjective Playfield.update_convs(5) Playfield.select_convs(5))

lemma remove_blocks_loop_ok:
  "wf_playfield pf \<Longrightarrow> list_all (\<lambda>u. u \<noteq> None) bs \<Longrightarrow> distinct (map (unit_cell pf) bs) \<Longrightarrow>
   list_all (\<lambda>u. on_grid (unit_cell pf u) \<and>
                  cell pf (fst (unit_cell pf u)) (snd (unit_cell pf u)) = u) bs \<Longrightarrow>
   \<exists>pf'. remove_blocks_loop pf bs = Inr pf' \<and> wf_playfield pf' \<and> same_but_matrix pf pf' \<and>
     (\<forall>x y. on_grid (x, y) \<longrightarrow>
        cell pf' x y = (if (x, y) \<in> unit_cell pf ` set bs then None else cell pf x y))"
proof (induction bs arbitrary: pf)
  case Nil
  then show ?case by simp
next
  case (Cons u bs)
  then obtain b where u: "u = Some b" by auto
  let ?p = "unit_cell pf u"
  let ?pf = "write_cell pf ?p None"
  have og: "on_grid ?p" and c: "cell pf (fst ?p) (snd ?p) = u"
    using Cons.prems(4) by simp_all
  have step: "remove_block pf b = Inr ?pf"
    using remove_block_ok[OF Cons.prems(1)] og c u by simp
  have wf: "wf_playfield ?pf" using Cons.prems(1) by (rule wf_write_cell)
  have d: "distinct (map (unit_cell ?pf) bs)" using Cons.prems(3) by simp
  have n: "list_all (\<lambda>u. u \<noteq> None) bs" using Cons.prems(2) by simp
  have notin: "?p \<notin> unit_cell pf ` set bs" using Cons.prems(3) by auto
  have inv: "list_all (\<lambda>u. on_grid (unit_cell ?pf u) \<and>
                  cell ?pf (fst (unit_cell ?pf u)) (snd (unit_cell ?pf u)) = u) bs"
    unfolding list_all_iff
  proof
    fix v assume v: "v \<in> set bs"
    then have o: "on_grid (unit_cell pf v)"
      and cv: "cell pf (fst (unit_cell pf v)) (snd (unit_cell pf v)) = v"
      using Cons.prems(4) by (auto simp: list_all_iff)
    have "unit_cell pf v \<noteq> ?p" using notin v by (metis imageI)
    then show "on_grid (unit_cell ?pf v) \<and>
                  cell ?pf (fst (unit_cell ?pf v)) (snd (unit_cell ?pf v)) = v"
      using o cv cell_write_cell[OF Cons.prems(1) og, of "fst (unit_cell pf v)" "snd (unit_cell pf v)" None]
      by simp
  qed
  from Cons.IH[OF wf n d inv] obtain pf' where
    r: "remove_blocks_loop ?pf bs = Inr pf'" "wf_playfield pf'" "same_but_matrix ?pf pf'"
    "\<forall>x y. on_grid (x, y) \<longrightarrow>
        cell pf' x y = (if (x, y) \<in> unit_cell ?pf ` set bs then None else cell ?pf x y)"
    by blast
  have s: "same_but_matrix pf pf'" using r(3)
    unfolding same_but_matrix_def write_cell_def by (metis (no_types, lifting) Playfield.surjective Playfield.update_convs(5) Playfield.select_convs(5))
  have "\<forall>x y. on_grid (x, y) \<longrightarrow>
        cell pf' x y = (if (x, y) \<in> unit_cell pf ` set (u # bs) then None else cell pf x y)"
    using r(4) cell_write_cell[OF Cons.prems(1) og] by auto
  then show ?case using r(1,2) s step u by (auto simp: block_ref_def)
qed

subsection \<open>The loops that place blocks\<close>

lemma same_but_matrix_trans_write:
  "same_but_matrix (write_cell pf p v) pf' \<Longrightarrow> same_but_matrix pf pf'"
  unfolding same_but_matrix_def write_cell_def
  by (metis (no_types, lifting) Playfield.surjective Playfield.update_convs(5) Playfield.select_convs(5))

lemma set_tetromino_loop_ok:
  "wf_playfield pf \<Longrightarrow> list_all (\<lambda>u. u \<noteq> None) bs \<Longrightarrow> distinct (map (unit_cell pf) bs) \<Longrightarrow>
   list_all (\<lambda>u. on_grid (unit_cell pf u)) bs \<Longrightarrow>
   \<exists>pf'. set_tetromino_loop pf bs = Inr pf' \<and> wf_playfield pf' \<and> same_but_matrix pf pf' \<and>
     (\<forall>u \<in> set bs. cell pf' (fst (unit_cell pf u)) (snd (unit_cell pf u)) = u) \<and>
     (\<forall>x y. on_grid (x, y) \<longrightarrow> (x, y) \<notin> unit_cell pf ` set bs \<longrightarrow> cell pf' x y = cell pf x y)"
proof (induction bs arbitrary: pf)
  case Nil
  then show ?case by simp
next
  case (Cons u bs)
  then obtain b where u: "u = Some b" by auto
  let ?p = "unit_cell pf u"
  let ?pf = "write_cell pf ?p u"
  have og: "on_grid ?p" using Cons.prems(4) by simp
  have p: "?p = (x_coord (heap pf ! b), y_coord (heap pf ! b))"
    by (simp add: unit_cell_def u)
  have step: "matrix_set pf (x_coord (heap pf ! b)) (y_coord (heap pf ! b)) (Some b) = Inr ?pf"
    using matrix_set_on_grid[OF Cons.prems(1), of "x_coord (heap pf ! b)" "y_coord (heap pf ! b)"]
      og p u by simp
  have wf: "wf_playfield ?pf" using Cons.prems(1) by (rule wf_write_cell)
  have d: "distinct (map (unit_cell ?pf) bs)" using Cons.prems(3) by simp
  have n: "list_all (\<lambda>u. u \<noteq> None) bs" using Cons.prems(2) by simp
  have notin: "?p \<notin> unit_cell pf ` set bs" using Cons.prems(3) by auto
  have inv: "list_all (\<lambda>u. on_grid (unit_cell ?pf u)) bs"
    using Cons.prems(4) by simp
  from Cons.IH[OF wf n d inv] obtain pf' where
    r: "set_tetromino_loop ?pf bs = Inr pf'" "wf_playfield pf'" "same_but_matrix ?pf pf'"
    "\<forall>v \<in> set bs. cell pf' (fst (unit_cell pf v)) (snd (unit_cell pf v)) = v"
    "\<forall>x y. on_grid (x, y) \<longrightarrow> (x, y) \<notin> unit_cell pf ` set bs \<longrightarrow> cell pf' x y = cell ?pf x y"
    by auto
  have s: "same_but_matrix pf pf'" using r(3) by (rule same_but_matrix_trans_write)
  have "cell pf' (fst ?p) (snd ?p) = cell ?pf (fst ?p) (snd ?p)"
    using r(5) og notin by simp
  then have head: "cell pf' (fst ?p) (snd ?p) = u"
    using cell_write_cell[OF Cons.prems(1) og, of "fst ?p" "snd ?p" u] og by simp
  have rest: "\<forall>x y. on_grid (x, y) \<longrightarrow> (x, y) \<notin> unit_cell pf ` set (u # bs) \<longrightarrow>
      cell pf' x y = cell pf x y"
    using r(5) cell_write_cell[OF Cons.prems(1) og] by auto
  have "set_tetromino_loop pf (u # bs) = Inr pf'"
    using step r(1) by (simp add: u block_ref_def Let_def)
  then show ?case using r(2,4) s head rest by auto
qed

lemma add_to_grid_loop_eq:
  "wf_playfield pf \<Longrightarrow> list_all (\<lambda>u. u \<noteq> None) bs \<Longrightarrow> distinct (map (unit_cell pf) bs) \<Longrightarrow>
   list_all (\<lambda>u. on_grid (unit_cell pf u) \<and>
                  cell pf (fst (unit_cell pf u)) (snd (unit_cell pf u)) = None) bs \<Longrightarrow>
   add_to_grid_loop pf bs = set_tetromino_loop pf bs"
proof (induction bs arbitrary: pf)
  case Nil
  then show ?case by simp
next
  case (Cons u bs)
  then obtain b where u: "u = Some b" by auto
  let ?p = "unit_cell pf u"
  let ?pf = "write_cell pf ?p u"
  have og: "on_grid ?p" and c: "cell pf (fst ?p) (snd ?p) = None"
    using Cons.prems(4) by simp_all
  have p: "?p = (x_coord (heap pf ! b), y_coord (heap pf ! b))"
    by (simp add: unit_cell_def u)
  have step: "matrix_set pf (x_coord (heap pf ! b)) (y_coord (heap pf ! b)) (Some b) = Inr ?pf"
    using matrix_set_on_grid[OF Cons.prems(1), of "x_coord (heap pf ! b)" "y_coord (heap pf ! b)"]
      og p u by simp
  have step': "add_block pf b = Inr ?pf"
    using add_block_ok[OF Cons.prems(1), of b] og c u by simp
  have wf: "wf_playfield ?pf" using Cons.prems(1) by (rule wf_write_cell)
  have d: "distinct (map (unit_cell ?pf) bs)" using Cons.prems(3) by simp
  have n: "list_all (\<lambda>u. u \<noteq> None) bs" using Cons.prems(2) by simp
  have notin: "?p \<notin> unit_cell pf ` set bs" using Cons.prems(3) by auto
  have inv: "list_all (\<lambda>u. on_grid (unit_cell ?pf u) \<and>
                  cell ?pf (fst (unit_cell ?pf u)) (snd (unit_cell ?pf u)) = None) bs"
    unfolding list_all_iff
  proof
    fix v assume v: "v \<in> set bs"
    then have o: "on_grid (unit_cell pf v)"
      and cv: "cell pf (fst (unit_cell pf v)) (snd (unit_cell pf v)) = None"
      using Cons.prems(4) by (auto simp: list_all_iff)
    have "unit_cell pf v \<noteq> ?p" using notin v by (metis imageI)
    then show "on_grid (unit_cell ?pf v) \<and>
                  cell ?pf (fst (unit_cell ?pf v)) (snd (unit_cell ?pf v)) = None"
      using o cv cell_write_cell[OF Cons.prems(1) og, of "fst (unit_cell pf v)" "snd (unit_cell pf v)" u]
      by simp
  qed
  show ?case using Cons.IH[OF wf n d inv] step step'
    by (simp add: u block_ref_def Let_def)
qed

lemma shape_states:
  "st \<in> set (shape_positions s) \<Longrightarrow> length st = 4 \<and> distinct st"
  by (cases s) (auto simp: shape_positions_def)

lemma shape_states_nonempty: "0 < length (shape_positions s)"
  by (cases s) (simp_all add: shape_positions_def)

lemma candidate_state_props:
  assumes "wf_tetromino t"
  shows "length (candidate_state t dr) = 4" "distinct (candidate_state t dr)"
proof -
  let ?n = "int (length (block_positions t))"
  have n: "0 < ?n" using assms shape_states_nonempty[of "shape t"]
    unfolding wf_tetromino_def by simp
  then have "nat ((rotation_index t + dr) mod ?n) < length (block_positions t)"
    by (simp add: nat_less_iff)
  then have "candidate_state t dr \<in> set (block_positions t)"
    unfolding candidate_state_def by (rule nth_mem)
  then have "candidate_state t dr \<in> set (shape_positions (shape t))"
    using assms unfolding wf_tetromino_def by simp
  from shape_states[OF this]
  show "length (candidate_state t dr) = 4" "distinct (candidate_state t dr)" by simp_all
qed

lemma candidate_cells_props:
  assumes "wf_tetromino t"
  shows "length (candidate_cells t dr) = 4" "distinct (candidate_cells t dr)"
proof -
  show "length (candidate_cells t dr) = 4"
    using candidate_state_props(1)[OF assms] by (simp add: candidate_cells_def)
  have "inj (\<lambda>vector. (x_coord_t t + fst vector, y_coord_t t + snd vector))"
    by (auto simp: inj_on_def prod_eq_iff)
  then show "distinct (candidate_cells t dr)"
    using candidate_state_props(2)[OF assms]
    by (simp add: candidate_cells_def distinct_map inj_on_subset[OF _ subset_UNIV])
qed


lemma same_but_grid_trans:
  assumes "same_but_grid a b" "same_but_grid b c"
  shows "same_but_grid a c"
proof -
  obtain mb hb where b: "b = a\<lparr>matrix := mb, heap := hb\<rparr>"
    using assms(1) unfolding same_but_grid_def by blast
  obtain mc hc where c: "c = b\<lparr>matrix := mc, heap := hc\<rparr>"
    using assms(2) unfolding same_but_grid_def by blast
  have "c = a\<lparr>matrix := mc, heap := hc\<rparr>" unfolding c b by simp
  then show ?thesis unfolding same_but_grid_def by simp
qed

lemma same_but_matrix_grid: "same_but_matrix a b \<Longrightarrow> same_but_grid a b"
proof -
  assume "same_but_matrix a b"
  then obtain m where "b = a\<lparr>matrix := m\<rparr>" unfolding same_but_matrix_def by blast
  then show ?thesis unfolding same_but_grid_def by simp
qed

lemma wf_heap_update [simp]: "wf_playfield (pf\<lparr>heap := h\<rparr>) = wf_playfield pf"
  by (simp add: wf_playfield_def)

lemma cell_heap_update [simp]: "cell (pf\<lparr>heap := h\<rparr>) x y = cell pf x y"
  by (simp add: cell_def)

lemma rotate_loop_ok:
  assumes "length (square_units t) = 4" "length bv = 4"
    "list_all (\<lambda>u. u \<noteq> None) (square_units t)" "distinct (square_units t)"
  shows "wf_playfield pf \<Longrightarrow> list_all (\<lambda>u. the u < length (heap pf)) (square_units t) \<Longrightarrow>
     distinct is \<Longrightarrow> list_all (\<lambda>i. 0 \<le> i \<and> i < 4) is \<Longrightarrow>
     list_all (\<lambda>i. on_grid (rotate_target t bv i) \<and>
        cell pf (fst (rotate_target t bv i)) (snd (rotate_target t bv i)) = None) is \<Longrightarrow>
     distinct (map (rotate_target t bv) is) \<Longrightarrow>
     \<exists>pf'. rotate_loop t pf bv is = Inr pf' \<and> wf_playfield pf' \<and> same_but_grid pf pf' \<and>
        length (heap pf') = length (heap pf) \<and>
        (\<forall>i \<in> set is. unit_cell pf' (square_units t ! nat i) = rotate_target t bv i \<and>
            cell pf' (fst (rotate_target t bv i)) (snd (rotate_target t bv i))
              = square_units t ! nat i) \<and>
        (\<forall>u \<in> set (square_units t). u \<notin> (\<lambda>i. square_units t ! nat i) ` set is \<longrightarrow>
            unit_cell pf' u = unit_cell pf u) \<and>
        (\<forall>x y. on_grid (x, y) \<longrightarrow> (x, y) \<notin> rotate_target t bv ` set is \<longrightarrow>
            cell pf' x y = cell pf x y)"
proof (induction "is" arbitrary: pf)
  case Nil
  then show ?case by (simp add: same_but_grid_def)
next
  case (Cons i "is")
  let ?us = "square_units t"
  let ?q = "rotate_target t bv"
  have i: "0 \<le> i" "i < 4" using Cons.prems(4) by simp_all
  then have ni: "nat i < 4" by linarith
  have um: "?us ! nat i \<in> set ?us" using ni assms(1) by simp
  then obtain b where b: "?us ! nat i = Some b"
    using assms(3) by (auto simp: list_all_iff)
  have bl: "b < length (heap pf)"
    using Cons.prems(2) um b by (auto simp: list_all_iff)
  let ?pa = "pf\<lparr>heap := (heap pf)[b := set_coords (heap pf ! b) (fst (?q i)) (snd (?q i))]\<rparr>"
  let ?pb = "write_cell ?pa (?q i) (Some b)"
  have og: "on_grid (?q i)" and c: "cell pf (fst (?q i)) (snd (?q i)) = None"
    using Cons.prems(5) by simp_all
  have ua: "unit_cell ?pa (Some b) = ?q i"
    using bl by (simp add: unit_cell_def set_coords_def)
  have wfa: "wf_playfield ?pa" using Cons.prems(1) by simp
  have add: "add_block ?pa b = Inr ?pb"
    using add_block_ok[OF wfa, of b] og c unfolding ua by simp
  have g1: "py_get ?us i = Inr (Some b)" using i assms(1) b by simp
  have g2: "py_get bv i = Inr (bv ! nat i)" using i assms(2) by simp
  have step: "rotate_loop t pf bv (i # is) = rotate_loop t ?pb bv is"
    using add by (simp add: g1 g2 block_ref_def Let_def rotate_target_def)
  have wfb: "wf_playfield ?pb" using wfa by (rule wf_write_cell)
  have hl: "length (heap ?pb) = length (heap pf)" by simp
  have p2: "list_all (\<lambda>u. the u < length (heap ?pb)) ?us"
    using Cons.prems(2) by simp
  have notin: "?q i \<notin> ?q ` set is" using Cons.prems(6) by simp
  have cb: "cell ?pb x y = (if (x, y) = ?q i then Some b else cell pf x y)"
    if "on_grid (x, y)" for x y
    using cell_write_cell[OF wfa og that, of "Some b"] by simp
  have p5: "list_all (\<lambda>j. on_grid (?q j) \<and> cell ?pb (fst (?q j)) (snd (?q j)) = None) is"
    unfolding list_all_iff
  proof
    fix j assume j: "j \<in> set is"
    then have o: "on_grid (?q j)" and cj: "cell pf (fst (?q j)) (snd (?q j)) = None"
      using Cons.prems(5) by (auto simp: list_all_iff)
    have "?q j \<noteq> ?q i" using notin j by (metis imageI)
    then show "on_grid (?q j) \<and> cell ?pb (fst (?q j)) (snd (?q j)) = None"
      using o cj cb[of "fst (?q j)" "snd (?q j)"] by simp
  qed
  have d: "distinct is" "list_all (\<lambda>i. 0 \<le> i \<and> i < 4) is" "distinct (map ?q is)"
    using Cons.prems(3,4,6) by simp_all
  from Cons.IH[OF wfb p2 d(1,2) p5 d(3)] obtain pf' where
    r: "rotate_loop t ?pb bv is = Inr pf'" "wf_playfield pf'" "same_but_grid ?pb pf'"
      "length (heap pf') = length (heap ?pb)"
      "\<forall>j \<in> set is. unit_cell pf' (?us ! nat j) = ?q j \<and>
            cell pf' (fst (?q j)) (snd (?q j)) = ?us ! nat j"
      "\<forall>u \<in> set ?us. u \<notin> (\<lambda>i. ?us ! nat i) ` set is \<longrightarrow> unit_cell pf' u = unit_cell ?pb u"
      "\<forall>x y. on_grid (x, y) \<longrightarrow> (x, y) \<notin> ?q ` set is \<longrightarrow> cell pf' x y = cell ?pb x y"
    by blast
  have sg: "same_but_grid pf pf'"
  proof (rule same_but_grid_trans[OF _ r(3)])
    show "same_but_grid pf ?pb" by (simp add: same_but_grid_def write_cell_def)
  qed
  have inotin: "i \<notin> set is" using Cons.prems(3) by simp
  have uin: "?us ! nat i \<notin> (\<lambda>i. ?us ! nat i) ` set is"
  proof
    assume "?us ! nat i \<in> (\<lambda>i. ?us ! nat i) ` set is"
    then obtain j where j: "j \<in> set is" "?us ! nat i = ?us ! nat j" by auto
    then have jb: "0 \<le> j" "j < 4" using Cons.prems(4) by (auto simp: list_all_iff)
    then have "nat j < length ?us" using assms(1) by linarith
    moreover have "nat i < length ?us" using ni assms(1) by simp
    ultimately have "nat i = nat j" using j(2) assms(4) by (simp add: nth_eq_iff_index_eq)
    then have "i = j" using i jb by linarith
    with j(1) inotin show False by simp
  qed
  have head1: "unit_cell pf' (?us ! nat i) = ?q i"
    using r(6) um uin ua by (simp add: b)
  have head2: "cell pf' (fst (?q i)) (snd (?q i)) = ?us ! nat i"
    using r(7) og notin cb[of "fst (?q i)" "snd (?q i)"] by (simp add: b)
  have others: "\<forall>u \<in> set ?us. u \<notin> (\<lambda>i. ?us ! nat i) ` set (i # is) \<longrightarrow>
      unit_cell pf' u = unit_cell pf u"
  proof (intro ballI impI)
    fix u assume u: "u \<in> set ?us" "u \<notin> (\<lambda>i. ?us ! nat i) ` set (i # is)"
    then have "u \<noteq> Some b" using b by auto
    moreover obtain c where "u = Some c" using u(1) assms(3) by (auto simp: list_all_iff)
    ultimately have "unit_cell ?pb u = unit_cell pf u"
      by (simp add: unit_cell_def)
    moreover have "unit_cell pf' u = unit_cell ?pb u" using r(6) u by auto
    ultimately show "unit_cell pf' u = unit_cell pf u" by simp
  qed
  have cells: "\<forall>x y. on_grid (x, y) \<longrightarrow> (x, y) \<notin> ?q ` set (i # is) \<longrightarrow>
      cell pf' x y = cell pf x y"
    using r(7) cb by auto
  show ?case
    unfolding step
    using r(1,2,4,5) sg hl head1 head2 others cells by auto
qed

section \<open>Collision detection\<close>

text \<open>
  C3. For a set-up piece on a well-formed playfield and every offset \<open>(dx, dy)\<close>:
  \<open>would_collide(dx, dy)\<close> returns True whenever one of the piece's cells, moved by the
  offset, has \<open>x < 0\<close>, \<open>x \<ge> grid_width\<close>, \<open>y < 0\<close> or \<open>y \<ge> grid_height\<close> (the height
  counts the hidden rows), and whenever it lands on an occupied cell whose block is not
  one of the piece's own.
\<close>

theorem would_collide_detects:
  assumes "wf_playfield pf" and "units_set_up t"
    and "Some b \<in> set (square_units t)"
    and "x = x_coord (heap pf ! b) + dx" and "y = y_coord (heap pf ! b) + dy"
    and "x < 0 \<or> x \<ge> grid_width pf \<or> y < 0 \<or> y \<ge> grid_height pf \<or>
         (cell pf x y \<noteq> None \<and> cell pf x y \<notin> set (square_units t))"
  shows "would_collide t pf dx dy = Inr True"
proof -
  have "collides_at t pf (x_coord (heap pf ! b) + dx) (y_coord (heap pf ! b) + dy)"
    using assms(4-6) by (simp add: collides_at_def)
  with assms(3) show ?thesis
    unfolding would_collide_eq[OF assms(1,2)] by blast
qed

theorem would_collide_detects_witness:
  "wf_playfield floor_playfield \<and> units_set_up I_on_floor \<and>
   Some 3 \<in> set (square_units I_on_floor) \<and>
   cell floor_playfield 4 21 \<noteq> None \<and>
   cell floor_playfield 4 21 \<notin> set (square_units I_on_floor) \<and>
   would_collide I_on_floor floor_playfield 1 0 = Inr True \<and>
   would_collide I_on_floor floor_playfield 0 1 = Inr True"
proof -
  have u: "Some 3 \<in> set (square_units I_on_floor)"
    by (simp add: I_on_floor_def)
  have x: "(4::int) = x_coord (heap floor_playfield ! 3) + 1"
    and y: "(21::int) = y_coord (heap floor_playfield ! 3) + 0"
    and y': "(22::int) = y_coord (heap floor_playfield ! 3) + 1"
    and x': "(3::int) = x_coord (heap floor_playfield ! 3) + 0"
    by (simp_all add: floor_playfield_def)
  have c: "cell floor_playfield 4 21 \<noteq> None \<and>
           cell floor_playfield 4 21 \<notin> set (square_units I_on_floor)"
    by (simp add: cell_def floor_playfield_def I_on_floor_def nth_append)
  have h: "22 \<ge> grid_height floor_playfield"
    by (simp add: floor_playfield_def new_Playfield_def)
  show ?thesis
    using would_collide_detects[OF wf_floor_playfield units_I_on_floor u x y]
      would_collide_detects[OF wf_floor_playfield units_I_on_floor u x' y']
      wf_floor_playfield units_I_on_floor u c h
    by simp
qed

section \<open>Reading cells off the grid\<close>

text \<open>
  C9, as the code has it. On a well-formed playfield \<open>check_cell_empty(x, y)\<close> and
  \<open>get_block(x, y)\<close> raise IndexError for every position with \<open>x \<ge> grid_width\<close>,
  \<open>x < -grid_width\<close>, \<open>y \<ge> grid_height\<close> or \<open>y < -grid_height\<close>. A position with
  \<open>-grid_width \<le> x < 0\<close> and \<open>-grid_height \<le> y < 0\<close> is not rejected: Python counts a
  negative index from the end, and the read answers for the cell
  \<open>(x + grid_width, y + grid_height)\<close>.
\<close>

theorem cell_read_out_of_range:
  assumes "wf_playfield pf"
  shows "(x \<ge> grid_width pf \<or> x < - grid_width pf \<or> y \<ge> grid_height pf \<or> y < - grid_height pf
            \<longrightarrow> check_cell_empty pf x y = Inl IndexError \<and> get_block pf x y = Inl IndexError)
       \<and> (- grid_width pf \<le> x \<and> x < 0 \<and> - grid_height pf \<le> y \<and> y < 0
            \<longrightarrow> check_cell_empty pf x y
                  = Inr (cell pf (x + grid_width pf) (y + grid_height pf) = None))"
proof -
  have d: "grid_width pf = 10" "grid_height pf = 22"
    using assms by (simp_all add: wf_playfield_def)
  show ?thesis
    unfolding d using assms
    by (auto simp: check_cell_empty_def get_block_def matrix_get_out matrix_get_wrap)
qed

theorem cell_read_out_of_range_witness:
  "wf_playfield floor_playfield \<and>
   check_cell_empty floor_playfield 10 0 = Inl IndexError \<and>
   get_block floor_playfield 10 0 = Inl IndexError \<and>
   check_cell_empty floor_playfield (- 10) (- 1) = Inr (cell floor_playfield 0 21 = None)"
  using cell_read_out_of_range[OF wf_floor_playfield, of 10 0]
    cell_read_out_of_range[OF wf_floor_playfield, of "- 10" "- 1"]
    wf_floor_playfield
  by (simp add: floor_playfield_def new_Playfield_def)

text \<open>
  The claim as stated fails: \<open>(-10, -1)\<close> is outside the grid, and both reads answer
  silently for the cell \<open>(0, 21)\<close>.
\<close>

theorem cell_read_negative_index_counterexample:
  "is_in_bounds floor_playfield (- 10) (- 1) = False \<and>
   check_cell_empty floor_playfield (- 10) (- 1) = Inr False \<and>
   get_block floor_playfield (- 10) (- 1) = Inr 0"
  by code_simp

section \<open>The top block row\<close>

text \<open>
  C10. \<open>get_top_block_row\<close> scans \<open>range(0, grid_height - 1)\<close> and so never looks at
  the bottom row: on a grid whose only blocks are in row 21 it returns -1, although the
  grid is not empty.
\<close>

theorem get_top_block_row_skips_bottom_row:
  "check_grid_empty floor_playfield = Inr False \<and>
   check_row_empty floor_playfield 21 = Inr False \<and>
   get_top_block_row floor_playfield = Inr (- 1)"
  by code_simp

section \<open>Rejected moves\<close>

lemma can_rotate_loop_step:
  assumes "wf_playfield pf"
  shows "can_rotate_loop t pf (v # vs) =
     (if collides_at t pf (x_coord_t t + fst v) (y_coord_t t + snd v)
      then Inr False else can_rotate_loop t pf vs)"
proof (cases "is_in_bounds pf (x_coord_t t + fst v) (y_coord_t t + snd v)")
  case False
  then show ?thesis using assms
    by (auto simp: Let_def collides_at_def is_in_bounds_iff wf_playfield_def)
next
  case True
  then have inb: "0 \<le> x_coord_t t + fst v" "x_coord_t t + fst v < 10"
    "0 \<le> y_coord_t t + snd v" "y_coord_t t + snd v < 22"
    using assms by (simp_all add: is_in_bounds_iff)
  have wf10: "grid_width pf = 10" "grid_height pf = 22"
    using assms by (simp_all add: wf_playfield_def)
  show ?thesis
  proof (cases "cell pf (x_coord_t t + fst v) (y_coord_t t + snd v)")
    case None
    then show ?thesis using True inb
      by (simp add: Let_def collides_at_def wf10 check_cell_empty_def
          matrix_get_in[OF assms])
  next
    case (Some b)
    then show ?thesis using True inb
      by (simp add: Let_def collides_at_def wf10 check_cell_empty_def
          get_block_def matrix_get_in[OF assms])
  qed
qed

lemma can_rotate_loop_eq:
  assumes "wf_playfield pf"
  shows "can_rotate_loop t pf vs =
     Inr (\<not> list_ex (\<lambda>v. collides_at t pf (x_coord_t t + fst v) (y_coord_t t + snd v)) vs)"
  by (induction vs) (simp_all add: can_rotate_loop_step[OF assms] del: can_rotate_loop.simps(2))

lemma wrap_index:
  assumes "0 \<le> i" "i < n" "dr = 1 \<or> dr = - 1"
  shows "(if i + dr = n then 0 else if i + dr = - 1 then n - 1 else i + dr) = (i + dr) mod (n::int)"
proof -
  have m1: "(- 1) mod n = n - 1" using assms(1,2)
    by (simp add: zmod_minus1)
  have "dr = 1 \<or> dr = - 1" by fact
  then show ?thesis
  proof
    assume "dr = 1"
    then show ?thesis using assms(1,2) by (auto simp: mod_pos_pos_trivial)
  next
    assume dr: "dr = - 1"
    show ?thesis
    proof (cases "i = 0")
      case True
      then show ?thesis using dr m1 assms by simp
    next
      case False
      then show ?thesis using dr assms by (auto simp: mod_pos_pos_trivial)
    qed
  qed
qed

lemma can_rotate_eq:
  assumes "wf_playfield pf" "wf_tetromino t" "dr = 1 \<or> dr = - 1"
  shows "can_rotate t pf dr =
     Inr (\<not> list_ex (\<lambda>(x, y). collides_at t pf x y) (candidate_cells t dr))"
proof -
  let ?n = "int (length (block_positions t))"
  have r: "0 \<le> rotation_index t" "rotation_index t < ?n"
    using assms(2) unfolding wf_tetromino_def by blast+
  have n: "0 < ?n" using r by linarith
  have b: "0 \<le> (rotation_index t + dr) mod ?n" "(rotation_index t + dr) mod ?n < ?n"
    using n by simp_all
  show ?thesis
    unfolding can_rotate_def Let_def wrap_index[OF r assms(3)]
    using b
    by (simp add: can_rotate_loop_eq[OF assms(1)] candidate_cells_def candidate_state_def
        list_ex_iff)
qed


lemma collides_cells_iff:
  assumes "units_set_up t"
  shows "(\<exists>b. Some b \<in> set (square_units t) \<and>
            collides_at t pf (x_coord (heap pf ! b) + dx) (y_coord (heap pf ! b) + dy))
     \<longleftrightarrow> list_ex (\<lambda>(x, y). collides_at t pf (x + dx) (y + dy)) (block_cells t pf)"
proof -
  have all: "\<And>u. u \<in> set (square_units t) \<Longrightarrow> \<exists>b. u = Some b"
    using assms by (auto simp: units_set_up_def list_all_iff)
  show ?thesis
  proof
    assume "\<exists>b. Some b \<in> set (square_units t) \<and>
            collides_at t pf (x_coord (heap pf ! b) + dx) (y_coord (heap pf ! b) + dy)"
    then obtain b where b: "Some b \<in> set (square_units t)"
      "collides_at t pf (x_coord (heap pf ! b) + dx) (y_coord (heap pf ! b) + dy)" by blast
    from b(1) have "(x_coord (heap pf ! b), y_coord (heap pf ! b)) \<in> set (block_cells t pf)"
      by (force simp: block_cells_def)
    with b(2) show "list_ex (\<lambda>(x, y). collides_at t pf (x + dx) (y + dy)) (block_cells t pf)"
      unfolding list_ex_iff by force
  next
    assume "list_ex (\<lambda>(x, y). collides_at t pf (x + dx) (y + dy)) (block_cells t pf)"
    then obtain u where u: "u \<in> set (square_units t)"
      "collides_at t pf (x_coord (heap pf ! the u) + dx) (y_coord (heap pf ! the u) + dy)"
      unfolding list_ex_iff block_cells_def by auto
    from all[OF u(1)] obtain b where "u = Some b" by blast
    with u show "\<exists>b. Some b \<in> set (square_units t) \<and>
            collides_at t pf (x_coord (heap pf ! b) + dx) (y_coord (heap pf ! b) + dy)"
      by auto
  qed
qed

lemma would_collide_cells:
  "wf_playfield pf \<Longrightarrow> units_set_up t \<Longrightarrow>
   would_collide t pf dx dy =
     Inr (list_ex (\<lambda>(x, y). collides_at t pf (x + dx) (y + dy)) (block_cells t pf))"
  by (simp add: would_collide_eq collides_cells_iff)

lemma wf_I_on_floor: "wf_tetromino I_on_floor"
  by (simp add: wf_tetromino_def units_I_on_floor)
    (simp add: I_on_floor_def new_tetromino_def shape_positions_def)

text \<open>
  C2. For a well-formed piece and playfield and \<open>dr\<close> in \<open>{+1, -1}\<close>: if a cell of the
  candidate rotation state is off the grid or on a foreign block, \<open>rotate(dr)\<close> returns
  with the piece (rotation index, origin, square units) and the playfield (matrix and
  block objects) exactly as they were. A shift to the left or right that would collide
  does the same, and \<open>drop_phase\<close>, the only caller of \<open>shift_down\<close>, leaves a grounded
  piece, the blocks and the matrix alone. None of them raises.
\<close>

theorem blocked_moves_are_no_ops:
  assumes "wf_playfield pf" and "wf_tetromino t"
  shows "((dr = 1 \<or> dr = - 1) \<and> list_ex (\<lambda>(x, y). collides_at t pf x y) (candidate_cells t dr)
            \<longrightarrow> rotate_call t pf dr = Inr (t, pf))
       \<and> (list_ex (\<lambda>(x, y). collides_at t pf (x + - 1) (y + 0)) (block_cells t pf)
            \<longrightarrow> shift_left t pf = Inr (t, pf))
       \<and> (list_ex (\<lambda>(x, y). collides_at t pf (x + 1) (y + 0)) (block_cells t pf)
            \<longrightarrow> shift_right t pf = Inr (t, pf))
       \<and> (active_tetromino pf = Some t \<and>
          list_ex (\<lambda>(x, y). collides_at t pf (x + 0) (y + 1)) (block_cells t pf)
            \<longrightarrow> (\<exists>pf'. drop_phase pf = Inr pf' \<and> active_tetromino pf' = Some t \<and>
                       heap pf' = heap pf \<and> matrix pf' = matrix pf))"
proof -
  have u: "units_set_up t" using assms(2) by (simp add: wf_tetromino_def)
  have rot: "rotate_call t pf dr = Inr (t, pf)"
    if "dr = 1 \<or> dr = - 1" "list_ex (\<lambda>(x, y). collides_at t pf x y) (candidate_cells t dr)"
  proof (cases "shape t = ShapeO")
    case True
    then show ?thesis by (simp add: rotate_call_def ShapeO_rotate_def)
  next
    case False
    then have "rotate_call t pf dr = Tetromino_rotate t pf dr"
      by (cases "shape t") (simp_all add: rotate_call_def)
    then show ?thesis using that
      by (simp add: Tetromino_rotate_def can_rotate_eq[OF assms that(1)])
  qed
  have left: "shift_left t pf = Inr (t, pf)"
    if "list_ex (\<lambda>(x, y). collides_at t pf (x + - 1) (y + 0)) (block_cells t pf)"
    using that by (simp add: shift_left_def would_collide_cells[OF assms(1) u])
  have right: "shift_right t pf = Inr (t, pf)"
    if "list_ex (\<lambda>(x, y). collides_at t pf (x + 1) (y + 0)) (block_cells t pf)"
    using that by (simp add: shift_right_def would_collide_cells[OF assms(1) u])
  have down: "\<exists>pf'. drop_phase pf = Inr pf' \<and> active_tetromino pf' = Some t \<and>
                       heap pf' = heap pf \<and> matrix pf' = matrix pf"
    if "active_tetromino pf = Some t"
       "list_ex (\<lambda>(x, y). collides_at t pf (x + 0) (y + 1)) (block_cells t pf)"
    using that
    by (simp add: drop_phase_def the_active_def is_on_ground_def
        would_collide_cells[OF assms(1) u])
  show ?thesis using rot left right down by blast
qed


theorem blocked_moves_are_no_ops_witness:
  "wf_playfield floor_playfield \<and> wf_tetromino I_on_floor \<and>
   list_ex (\<lambda>(x, y). collides_at I_on_floor floor_playfield x y) (candidate_cells I_on_floor 1) \<and>
   rotate_call I_on_floor floor_playfield 1 = Inr (I_on_floor, floor_playfield) \<and>
   shift_left I_on_floor floor_playfield = Inr (I_on_floor, floor_playfield) \<and>
   shift_right I_on_floor floor_playfield = Inr (I_on_floor, floor_playfield) \<and>
   (\<exists>pf'. drop_phase floor_playfield = Inr pf' \<and> active_tetromino pf' = Some I_on_floor \<and>
          heap pf' = heap floor_playfield \<and> matrix pf' = matrix floor_playfield)"
proof -
  have r: "list_ex (\<lambda>(x, y). collides_at I_on_floor floor_playfield x y)
             (candidate_cells I_on_floor 1)"
    by code_simp
  have l: "list_ex (\<lambda>(x, y). collides_at I_on_floor floor_playfield (x + - 1) (y + 0))
             (block_cells I_on_floor floor_playfield)"
    by code_simp
  have g: "list_ex (\<lambda>(x, y). collides_at I_on_floor floor_playfield (x + 1) (y + 0))
             (block_cells I_on_floor floor_playfield)"
    by code_simp
  have d: "list_ex (\<lambda>(x, y). collides_at I_on_floor floor_playfield (x + 0) (y + 1))
             (block_cells I_on_floor floor_playfield)"
    by code_simp
  have a: "active_tetromino floor_playfield = Some I_on_floor"
    by (simp add: floor_playfield_def)
  show ?thesis
    using blocked_moves_are_no_ops[OF wf_floor_playfield wf_I_on_floor, of 1]
      wf_floor_playfield wf_I_on_floor r l g d a
    by blast
qed

section \<open>Lock-out\<close>

lemma get_rows_loop_set:
  "list_all (\<lambda>b. b \<noteq> None) bs \<Longrightarrow>
   \<exists>rows'. get_rows_loop pf rows bs = Inr rows' \<and>
     set rows' = set rows \<union> (\<lambda>b. y_coord (heap pf ! the b)) ` set bs"
proof (induction bs arbitrary: rows)
  case Nil
  show ?case by simp
next
  case (Cons a bs)
  then obtain r where a: "a = Some r" by auto
  from Cons.prems have bs: "list_all (\<lambda>b. b \<noteq> None) bs" by simp
  show ?case
  proof (cases "y_coord (heap pf ! r) \<in> set rows")
    case True
    with Cons.IH[OF bs, of rows] show ?thesis
      by (auto simp: a block_ref_def Let_def)
  next
    case False
    with Cons.IH[OF bs, of "rows @ [y_coord (heap pf ! r)]"] show ?thesis
      by (auto simp: a block_ref_def Let_def)
  qed
qed

lemma get_rows_set:
  assumes "units_set_up t"
  shows "\<exists>rows. get_rows t pf = Inr rows \<and> set rows = snd ` set (block_cells t pf)"
proof -
  from assms have "list_all (\<lambda>b. b \<noteq> None) (square_units t)"
    by (simp add: units_set_up_def)
  from get_rows_loop_set[OF this, of pf "[]"] obtain rows' where
    r: "get_rows_loop pf [] (square_units t) = Inr rows'"
       "set rows' = (\<lambda>b. y_coord (heap pf ! the b)) ` set (square_units t)" by auto
  have "snd ` set (block_cells t pf) = (\<lambda>b. y_coord (heap pf ! the b)) ` set (square_units t)"
    by (force simp: block_cells_def)
  with r show ?thesis by (simp add: get_rows_def)
qed

lemma check_lock_out_loop_eq:
  "check_lock_out_loop pf rows = list_all (\<lambda>row. row < hidden_rows pf) rows"
  by (induction rows) auto

lemma check_row_full_in:
  "wf_playfield pf \<Longrightarrow> 0 \<le> row \<Longrightarrow> row < 22 \<Longrightarrow>
   check_row_full pf row = Inr (check_row_full_loop (matrix pf ! nat row))"
  by (simp add: check_row_full_def wf_playfield_def)

lemma pattern_phase_loop_total:
  assumes "wf_playfield pf"
  shows "list_all (\<lambda>row. 0 \<le> row \<and> row < 22) block_rows \<Longrightarrow>
     \<exists>rows'. pattern_phase_loop pf rows block_rows = Inr rows'"
  by (induction block_rows arbitrary: rows) (simp_all add: check_row_full_in[OF assms])

lemma pattern_phase_game_over:
  assumes "wf_playfield pf" "active_tetromino pf = Some t" "units_set_up t"
    and "list_all (\<lambda>(x, y). 0 \<le> y \<and> y < grid_height pf) (block_cells t pf)"
  shows "\<exists>pf'. pattern_phase pf = Inr pf' \<and> game_over pf' = game_over pf"
proof -
  obtain block_rows where r: "get_rows t pf = Inr block_rows"
    "set block_rows = snd ` set (block_cells t pf)"
    using get_rows_set[OF assms(3)] by blast
  have h: "grid_height pf = 22" using assms(1) by (simp add: wf_playfield_def)
  have "list_all (\<lambda>row. 0 \<le> row \<and> row < 22) block_rows"
    using assms(4) r(2) unfolding list_all_iff h by auto
  from pattern_phase_loop_total[OF assms(1) this, of "[]"]
  obtain rows' where "pattern_phase_loop pf [] block_rows = Inr rows'" by blast
  then show ?thesis using r(1) assms(2)
    by (simp add: pattern_phase_def the_active_def)
qed

lemma check_lock_out_eq:
  assumes "active_tetromino pf = Some t" "units_set_up t"
  shows "check_lock_out pf =
     Inr (list_all (\<lambda>(x, y). y < hidden_rows pf) (block_cells t pf))"
proof -
  obtain rows where r: "get_rows t pf = Inr rows" "set rows = snd ` set (block_cells t pf)"
    using get_rows_set[OF assms(2)] by blast
  have "list_all (\<lambda>row. row < hidden_rows pf) rows
        = list_all (\<lambda>(x, y). y < hidden_rows pf) (block_cells t pf)"
    unfolding list_all_iff r(2) by auto
  then show ?thesis using r(1) assms(1)
    by (simp add: check_lock_out_def the_active_def check_lock_out_loop_eq)
qed

lemma wf_lock_out_playfield: "wf_playfield lock_out_playfield"
  by (simp add: wf_playfield_def lock_out_playfield_def new_Playfield_def list_all_iff)

lemma units_I_hidden: "units_set_up I_hidden"
  by (simp add: units_set_up_def I_hidden_def)

text \<open>
  C5. Locking a piece whose cells are all in rows below \<open>hidden_rows\<close> (the hidden rows
  0 and 1) sets the game-over flag and does not enter the pattern phase: the clear phase
  and the clear generator are untouched. If at least one cell is in a visible row,
  \<open>check_lock_out\<close> answers False, the game-over flag keeps its value and the lock is the
  pattern phase. The lock does not raise for a piece whose cells are on the grid.
\<close>

theorem lock_out_sets_game_over:
  assumes "wf_playfield pf" and "active_tetromino pf = Some t" and "units_set_up t"
    and "list_all (\<lambda>(x, y). 0 \<le> y \<and> y < grid_height pf) (block_cells t pf)"
  shows "\<exists>pf'. lock_tetromino pf = Inr pf' \<and>
     (if list_all (\<lambda>(x, y). y < hidden_rows pf) (block_cells t pf)
      then check_lock_out pf = Inr True \<and> game_over pf' \<and>
           in_clear_phase pf' = in_clear_phase pf \<and> clear_generator pf' = clear_generator pf
      else check_lock_out pf = Inr False \<and> game_over pf' = game_over pf \<and>
           pattern_phase (pf\<lparr>lock_counter := 0, tetromino_isactive := False,
                              in_lock_phase := False\<rparr>) = Inr pf')"
proof -
  let ?pf = "pf\<lparr>lock_counter := 0, tetromino_isactive := False, in_lock_phase := False\<rparr>"
  have cells: "block_cells t ?pf = block_cells t pf" by (simp add: block_cells_def)
  have wf: "wf_playfield ?pf" using assms(1) by (simp add: wf_playfield_def)
  have act: "active_tetromino ?pf = Some t" using assms(2) by simp
  have out: "check_lock_out ?pf =
     Inr (list_all (\<lambda>(x, y). y < hidden_rows pf) (block_cells t pf))"
    using check_lock_out_eq[OF act assms(3)] by (simp add: cells)
  have out0: "check_lock_out pf =
     Inr (list_all (\<lambda>(x, y). y < hidden_rows pf) (block_cells t pf))"
    by (rule check_lock_out_eq[OF assms(2,3)])
  have inb: "list_all (\<lambda>(x, y). 0 \<le> y \<and> y < grid_height ?pf) (block_cells t ?pf)"
    using assms(4) by (simp add: cells)
  obtain pf1 where p: "pattern_phase ?pf = Inr pf1" "game_over pf1 = game_over ?pf"
    using pattern_phase_game_over[OF wf act assms(3) inb] by blast
  show ?thesis
  proof (cases "list_all (\<lambda>(x, y). y < hidden_rows pf) (block_cells t pf)")
    case True
    then show ?thesis using out out0
      by (simp add: lock_tetromino_def Let_def)
  next
    case False
    then show ?thesis using out out0 p
      by (simp add: lock_tetromino_def Let_def)
  qed
qed


theorem lock_out_sets_game_over_witness:
  "wf_playfield lock_out_playfield \<and>
   list_all (\<lambda>(x, y). y < hidden_rows lock_out_playfield)
     (block_cells I_hidden lock_out_playfield) \<and>
   (\<exists>pf'. lock_tetromino lock_out_playfield = Inr pf' \<and> game_over pf' \<and>
          in_clear_phase pf' = in_clear_phase lock_out_playfield) \<and>
   wf_playfield floor_playfield \<and>
   \<not> list_all (\<lambda>(x, y). y < hidden_rows floor_playfield)
       (block_cells I_on_floor floor_playfield) \<and>
   (\<exists>pf'. lock_tetromino floor_playfield = Inr pf' \<and>
          game_over pf' = game_over floor_playfield \<and> check_lock_out floor_playfield = Inr False)"
proof -
  have a1: "active_tetromino lock_out_playfield = Some I_hidden"
    by (simp add: lock_out_playfield_def)
  have b1: "list_all (\<lambda>(x, y). 0 \<le> y \<and> y < grid_height lock_out_playfield)
              (block_cells I_hidden lock_out_playfield)"
    by code_simp
  have c1: "list_all (\<lambda>(x, y). y < hidden_rows lock_out_playfield)
              (block_cells I_hidden lock_out_playfield)"
    by code_simp
  have a2: "active_tetromino floor_playfield = Some I_on_floor"
    by (simp add: floor_playfield_def)
  have b2: "list_all (\<lambda>(x, y). 0 \<le> y \<and> y < grid_height floor_playfield)
              (block_cells I_on_floor floor_playfield)"
    by code_simp
  have c2: "\<not> list_all (\<lambda>(x, y). y < hidden_rows floor_playfield)
                (block_cells I_on_floor floor_playfield)"
    by code_simp
  show ?thesis
    using lock_out_sets_game_over[OF wf_lock_out_playfield a1 units_I_hidden b1]
      lock_out_sets_game_over[OF wf_floor_playfield a2 units_I_on_floor b2]
      wf_lock_out_playfield wf_floor_playfield c1 c2
    by auto
qed

section \<open>The bag randomizer's windows\<close>

lemma shuffle_loop_mset:
  "list_all (\<lambda>i. i < length x) is \<Longrightarrow>
   mset (fst (shuffle_loop rnd c x is)) = mset x \<and> length (fst (shuffle_loop rnd c x is)) = length x"
proof (induction "is" arbitrary: c x)
  case Nil
  show ?case by simp
next
  case (Cons i "is")
  let ?j = "rnd c mod (i + 1)"
  let ?x = "x[i := x ! ?j, ?j := x ! i]"
  have i: "i < length x" using Cons.prems by simp
  have "?j < i + 1" by simp
  then have j: "?j < length x" using i by linarith
  have m: "mset ?x = mset x" using i j by (simp add: mset_swap)
  have l: "length ?x = length x" by simp
  have "list_all (\<lambda>i. i < length ?x) is" using Cons.prems by simp
  from Cons.IH[OF this] m l show ?case by (simp add: Let_def)
qed

lemma shuffle_mset:
  "mset (fst (shuffle rnd c x)) = mset x \<and> length (fst (shuffle rnd c x)) = length x"
  unfolding shuffle_def by (rule shuffle_loop_mset) (simp add: list_all_iff)

lemma random_take_bag:
  "random_take rnd (length b) \<lparr>bag_rest = b, draws = c\<rparr>
     = Some (map new_tetromino b, \<lparr>bag_rest = [], draws = c\<rparr>)"
  by (induction b) (simp_all add: next_random_def)

lemma random_take_add:
  "random_take rnd (m + n) g =
     (case random_take rnd m g of
        None \<Rightarrow> None
      | Some (ts, g') \<Rightarrow>
          (case random_take rnd n g' of
             None \<Rightarrow> None
           | Some (ts', g'') \<Rightarrow> Some (ts @ ts', g'')))"
  by (induction m arbitrary: g) (auto split: option.splits)

lemma random_take_fresh_bag:
  assumes "bag_rest g = []"
  shows "\<exists>b c. random_take rnd 7 g = Some (map new_tetromino b, \<lparr>bag_rest = [], draws = c\<rparr>) \<and>
               mset b = mset get_tetromino_set"
proof -
  obtain b c where s: "shuffle rnd (draws g) get_tetromino_set = (b, c)" by force
  have m: "mset b = mset get_tetromino_set" and l: "length b = 7"
    using shuffle_mset[of rnd "draws g" get_tetromino_set] s
    by (simp_all add: get_tetromino_set_def)
  then obtain x rest where b: "b = x # rest" "length rest = 6" by (cases b) auto
  have "random_take rnd (Suc (length rest)) g
        = Some (map new_tetromino b, \<lparr>bag_rest = [], draws = c\<rparr>)"
    using assms s b(1) by (simp add: next_random_def random_take_bag)
  moreover have "Suc (length rest) = 7" using b(2) by simp
  ultimately have "random_take rnd 7 g
        = Some (map new_tetromino b, \<lparr>bag_rest = [], draws = c\<rparr>)"
    by metis
  with m show ?thesis by blast
qed

lemma random_take_bags:
  "\<exists>ts c. random_take rnd (7 * k) random_generator
            = Some (ts, \<lparr>bag_rest = [], draws = c\<rparr>) \<and> length ts = 7 * k"
proof (induction k)
  case 0
  show ?case by (simp add: random_generator_def)
next
  case (Suc k)
  then obtain ts c where t: "random_take rnd (7 * k) random_generator
            = Some (ts, \<lparr>bag_rest = [], draws = c\<rparr>)" "length ts = 7 * k" by blast
  obtain b c' where b: "random_take rnd 7 \<lparr>bag_rest = [], draws = c\<rparr>
            = Some (map new_tetromino b, \<lparr>bag_rest = [], draws = c'\<rparr>)"
      "mset b = mset get_tetromino_set"
    using random_take_fresh_bag[of "\<lparr>bag_rest = [], draws = c\<rparr>" rnd] by auto
  have "size (mset b) = size (mset get_tetromino_set)" using b(2) by simp
  then have "length b = 7" by (simp add: get_tetromino_set_def)
  moreover have "7 * Suc k = 7 * k + 7" by simp
  ultimately show ?case using t b(1) by (simp add: random_take_add del: mult_Suc_right)
qed

text \<open>
  C7, as the code has it. For every random source and every \<open>k\<close>, the generator yields
  at least \<open>7k + 7\<close> pieces, and the seven pieces from position \<open>7k\<close> on (one whole bag)
  contain each of the seven shapes exactly once.
\<close>

theorem bag_window_has_each_shape_once:
  "\<exists>ts g. random_take rnd (7 * k + 7) random_generator = Some (ts, g) \<and>
          mset (map shape (take 7 (drop (7 * k) ts))) = mset get_tetromino_set"
proof -
  obtain ts c where t: "random_take rnd (7 * k) random_generator
            = Some (ts, \<lparr>bag_rest = [], draws = c\<rparr>)" "length ts = 7 * k"
    using random_take_bags by blast
  obtain b c' where b: "random_take rnd 7 \<lparr>bag_rest = [], draws = c\<rparr>
            = Some (map new_tetromino b, \<lparr>bag_rest = [], draws = c'\<rparr>)"
      "mset b = mset get_tetromino_set"
    using random_take_fresh_bag[of "\<lparr>bag_rest = [], draws = c\<rparr>" rnd] by auto
  have s: "map shape (map new_tetromino b) = b"
    by (induction b) (simp_all add: new_tetromino_def)
  define out where "out = ts @ map new_tetromino b"
  have r: "random_take rnd (7 * k + 7) random_generator
          = Some (out, \<lparr>bag_rest = [], draws = c'\<rparr>)"
    using t(1) b(1) by (simp add: random_take_add out_def)
  have "size (mset b) = size (mset get_tetromino_set)" using b(2) by simp
  then have l: "length b = 7" by (simp add: get_tetromino_set_def)
  have "take 7 (drop (7 * k) out) = map new_tetromino b"
    using t(2) l by (simp add: out_def)
  then have "map shape (take 7 (drop (7 * k) out)) = b"
    using s by simp
  then have "mset (map shape (take 7 (drop (7 * k) out))) = mset get_tetromino_set"
    using b(2) by simp
  with r show ?thesis by blast
qed

theorem bag_window_has_each_shape_once_witness:
  "\<exists>ts g. random_take two_bags_rnd 14 random_generator = Some (ts, g) \<and>
          mset (map shape (take 7 (drop 7 ts))) = mset get_tetromino_set"
  using bag_window_has_each_shape_once[of two_bags_rnd 1] by simp

text \<open>
  The claim as stated fails for a window that straddles two bags: with the draws of
  \<open>two_bags_rnd\<close> the seven pieces from position 1 on are L O S T Z I I.
\<close>

theorem bag_window_unaligned_counterexample:
  "map_option (\<lambda>(ts, g). map shape (take 7 (drop 1 ts)))
     (random_take two_bags_rnd 8 random_generator)
   = Some [ShapeL, ShapeO, ShapeS, ShapeT, ShapeZ, ShapeI, ShapeI]"
  by code_simp

section \<open>Rotating there and back\<close>

lemma upto_0_3: "[0 .. 3 :: int] = [0, 1, 2, 3]"
  by (simp add: upto.simps)

lemma length4E:
  assumes "length xs = 4"
  obtains a b c d where "xs = [a, b, c, d]"
proof -
  from assms obtain a r1 where "xs = a # r1" "length r1 = 3" by (cases xs) auto
  moreover then obtain b r2 where "r1 = b # r2" "length r2 = 2" by (cases r1) auto
  moreover then obtain c r3 where "r2 = c # r3" "length r3 = 1" by (cases r2) auto
  moreover then obtain d where "r3 = [d]" by (cases r3) auto
  ultimately show ?thesis using that by simp
qed

lemma block_cells_unit: "block_cells t pf = map (unit_cell pf) (square_units t)"
  by (simp add: block_cells_def unit_cell_def)

lemma own_cells_only:
  assumes "piece_placed t pf" "on_grid (x, y)" "cell pf x y \<in> set (square_units t)"
  shows "(x, y) \<in> set (block_cells t pf)"
proof -
  have "list_all (\<lambda>y. list_all (\<lambda>x. cell pf x y \<notin> set (square_units t) \<or>
                                  (x, y) \<in> set (block_cells t pf)) [0 .. 9]) [0 .. 21]"
    using assms(1) unfolding piece_placed_def by blast
  moreover have "y \<in> set [0 .. 21]" "x \<in> set [0 .. 9]"
    using assms(2) by (auto simp: on_grid_def)
  ultimately show ?thesis using assms(3) unfolding list_all_iff by blast
qed

lemma own_cells_onlyI:
  assumes "\<And>x y. on_grid (x, y) \<Longrightarrow> cell pf x y \<in> set us \<Longrightarrow> (x, y) \<in> set cs"
  shows "list_all (\<lambda>y. list_all (\<lambda>x. cell pf x y \<notin> set us \<or> (x, y) \<in> set cs) [0 .. 9]) [0 .. 21]"
  unfolding list_all_iff using assms by (auto simp: on_grid_def)


lemma candidate_index:
  assumes "wf_tetromino t"
  shows "0 \<le> (rotation_index t + dr) mod int (length (block_positions t))"
    "(rotation_index t + dr) mod int (length (block_positions t)) < int (length (block_positions t))"
proof -
  have "0 \<le> rotation_index t" "rotation_index t < int (length (block_positions t))"
    using assms unfolding wf_tetromino_def by blast+
  then have "0 < int (length (block_positions t))" by linarith
  then show "0 \<le> (rotation_index t + dr) mod int (length (block_positions t))"
    "(rotation_index t + dr) mod int (length (block_positions t)) < int (length (block_positions t))"
    by simp_all
qed

lemma candidate_cells_zero:
  assumes "wf_tetromino t"
  shows "candidate_state t 0 = block_positions t ! nat (rotation_index t)"
proof -
  have "0 \<le> rotation_index t" "rotation_index t < int (length (block_positions t))"
    using assms unfolding wf_tetromino_def by blast+
  then show ?thesis by (simp add: candidate_state_def)
qed

lemma rotate_step:
  assumes wf: "wf_playfield pf" and pl: "piece_placed t pf" and dr: "dr = 1 \<or> dr = - 1"
    and free: "\<not> list_ex (\<lambda>(x, y). collides_at t pf x y) (candidate_cells t dr)"
  shows "\<exists>pf'. Tetromino_rotate t pf dr
           = Inr (t\<lparr>rotation_index :=
                      (rotation_index t + dr) mod int (length (block_positions t))\<rparr>, pf') \<and>
         wf_playfield pf' \<and>
         piece_placed (t\<lparr>rotation_index :=
                      (rotation_index t + dr) mod int (length (block_positions t))\<rparr>) pf' \<and>
         block_cells (t\<lparr>rotation_index :=
                      (rotation_index t + dr) mod int (length (block_positions t))\<rparr>) pf'
           = candidate_cells t dr \<and>
         (\<forall>p \<in> set (block_cells t pf). p \<notin> set (candidate_cells t dr) \<longrightarrow>
            cell pf' (fst p) (snd p) = None)"
proof -
  let ?n = "int (length (block_positions t))"
  let ?k = "(rotation_index t + dr) mod ?n"
  let ?t = "t\<lparr>rotation_index := ?k\<rparr>"
  let ?us = "square_units t"
  let ?bv = "candidate_state t dr"
  have wt: "wf_tetromino t" and du: "distinct ?us"
    and hp: "list_all (\<lambda>u. the u < length (heap pf)) ?us"
    and bc: "block_cells t pf = candidate_cells t 0"
    and og: "list_all on_grid (block_cells t pf)"
    and at: "list_all (\<lambda>u. cell pf (fst (unit_cell pf u)) (snd (unit_cell pf u)) = u) ?us"
    using pl unfolding piece_placed_def by blast+
  have us: "units_set_up t" and ri: "0 \<le> rotation_index t" "rotation_index t < ?n"
    and bp: "block_positions t = shape_positions (shape t)"
    using wt unfolding wf_tetromino_def by blast+
  have l4: "length ?us = 4" and some: "list_all (\<lambda>u. u \<noteq> None) ?us"
    using us unfolding units_set_up_def by blast+
  note k = candidate_index[OF wt, of dr]
  have can: "can_rotate t pf dr = Inr True"
    using can_rotate_eq[OF wf wt dr] free by simp
  have idx: "(if rotation_index t + dr = ?n then 0
              else if rotation_index t + dr = - 1 then ?n - 1 else rotation_index t + dr) = ?k"
    by (rule wrap_index[OF ri dr])
  have get: "py_get (block_positions ?t) (rotation_index ?t) = Inr ?bv"
    using k by (simp add: candidate_state_def)
  \<comment> \<open>removing the blocks\<close>
  have dist_old: "distinct (map (unit_cell pf) ?us)"
    using candidate_cells_props(2)[OF wt, of 0] bc by (simp add: block_cells_unit)
  have rm_pre: "list_all (\<lambda>u. on_grid (unit_cell pf u) \<and>
                  cell pf (fst (unit_cell pf u)) (snd (unit_cell pf u)) = u) ?us"
    using og at unfolding list_all_iff block_cells_unit by auto
  from remove_blocks_loop_ok[OF wf some dist_old rm_pre] obtain pf1 where
    r1: "remove_blocks_loop pf ?us = Inr pf1" "wf_playfield pf1" "same_but_matrix pf pf1"
      "\<forall>x y. on_grid (x, y) \<longrightarrow>
        cell pf1 x y = (if (x, y) \<in> unit_cell pf ` set ?us then None else cell pf x y)"
    by blast
  have h1: "heap pf1 = heap pf"
    using r1(3) unfolding same_but_matrix_def by (metis Playfield.select_convs(6) Playfield.surjective Playfield.update_convs(5))
  have old_set: "unit_cell pf ` set ?us = set (block_cells t pf)"
    by (simp add: block_cells_unit)
  \<comment> \<open>the candidate cells are free once the piece is off the grid\<close>
  have l4b: "length ?bv = 4" by (rule candidate_state_props(1)[OF wt])
  have tgt: "rotate_target ?t ?bv i = candidate_cells t dr ! nat i" if "0 \<le> i" "i < 4" for i
    using that l4b by (simp add: rotate_target_def candidate_cells_def)
  have cand_free: "on_grid p \<and> cell pf1 (fst p) (snd p) = None"
    if p: "p \<in> set (candidate_cells t dr)" for p
  proof -
    have nc: "\<not> collides_at t pf (fst p) (snd p)"
      using free p unfolding list_ex_iff by (cases p) auto
    have gw: "grid_width pf = 10" "grid_height pf = 22"
      using wf by (simp_all add: wf_playfield_def)
    have o: "on_grid p" using nc unfolding collides_at_def on_grid_def gw by auto
    have own: "cell pf (fst p) (snd p) = None \<or> cell pf (fst p) (snd p) \<in> set ?us"
      using nc unfolding collides_at_def by auto
    have "cell pf1 (fst p) (snd p) = None"
    proof (cases "p \<in> set (block_cells t pf)")
      case True
      then show ?thesis using r1(4) o old_set by (cases p) auto
    next
      case False
      have "cell pf (fst p) (snd p) \<notin> set ?us"
        using own_cells_only[OF pl, of "fst p" "snd p"] o False by auto
      with own have "cell pf (fst p) (snd p) = None" by simp
      then show ?thesis using r1(4) o old_set False by (cases p) auto
    qed
    with o show ?thesis by simp
  qed
  obtain c0 c1 c2 c3 where cc: "candidate_cells t dr = [c0, c1, c2, c3]"
    using candidate_cells_props(1)[OF wt, of dr] by (rule length4E)
  obtain u0 u1 u2 u3 where uu: "?us = [u0, u1, u2, u3]"
    using l4 by (rule length4E)
  have tg: "rotate_target ?t ?bv 0 = c0" "rotate_target ?t ?bv 1 = c1"
    "rotate_target ?t ?bv 2 = c2" "rotate_target ?t ?bv 3 = c3"
    using tgt[of 0] tgt[of 1] tgt[of 2] tgt[of 3] by (simp_all add: cc)
  have dc: "distinct [c0, c1, c2, c3]"
    using candidate_cells_props(2)[OF wt, of dr] unfolding cc .
  have pre5: "list_all (\<lambda>i. on_grid (rotate_target ?t ?bv i) \<and>
        cell pf1 (fst (rotate_target ?t ?bv i)) (snd (rotate_target ?t ?bv i)) = None) [0, 1, 2, 3]"
    using cand_free[of c0] cand_free[of c1] cand_free[of c2] cand_free[of c3]
    by (simp add: tg cc)
  have pre6: "distinct (map (rotate_target ?t ?bv) [0, 1, 2, 3])"
    using dc by (simp add: tg)
  have hp1: "list_all (\<lambda>u. the u < length (heap pf1)) (square_units ?t)"
    using hp h1 by simp
  have "\<exists>pf'. rotate_loop ?t pf1 ?bv [0, 1, 2, 3] = Inr pf' \<and> wf_playfield pf' \<and>
        same_but_grid pf1 pf' \<and> length (heap pf') = length (heap pf1) \<and>
        (\<forall>i \<in> set [0, 1, 2, 3]. unit_cell pf' (square_units ?t ! nat i) = rotate_target ?t ?bv i \<and>
            cell pf' (fst (rotate_target ?t ?bv i)) (snd (rotate_target ?t ?bv i))
              = square_units ?t ! nat i) \<and>
        (\<forall>u \<in> set (square_units ?t). u \<notin> (\<lambda>i. square_units ?t ! nat i) ` set [0, 1, 2, 3] \<longrightarrow>
            unit_cell pf' u = unit_cell pf1 u) \<and>
        (\<forall>x y. on_grid (x, y) \<longrightarrow> (x, y) \<notin> rotate_target ?t ?bv ` set [0, 1, 2, 3] \<longrightarrow>
            cell pf' x y = cell pf1 x y)"
    by (rule rotate_loop_ok[OF _ l4b _ _ r1(2) hp1 _ _ pre5 pre6])
       (use l4 some du in simp_all)
  then obtain pf' where
    r2: "rotate_loop ?t pf1 ?bv [0, 1, 2, 3] = Inr pf'" "wf_playfield pf'"
      "length (heap pf') = length (heap pf1)"
      "unit_cell pf' u0 = c0" "unit_cell pf' u1 = c1" "unit_cell pf' u2 = c2"
      "unit_cell pf' u3 = c3"
      "cell pf' (fst c0) (snd c0) = u0" "cell pf' (fst c1) (snd c1) = u1"
      "cell pf' (fst c2) (snd c2) = u2" "cell pf' (fst c3) (snd c3) = u3"
      "\<forall>x y. on_grid (x, y) \<longrightarrow> (x, y) \<notin> {c0, c1, c2, c3} \<longrightarrow> cell pf' x y = cell pf1 x y"
    by (auto simp: tg uu)
  have run: "Tetromino_rotate t pf dr = Inr (?t, pf')"
    using can r1(1) r2(1) get
    by (simp add: Tetromino_rotate_def Let_def idx remove_blocks_def l4 upto_0_3)
  have cells': "block_cells ?t pf' = candidate_cells t dr"
    using r2(4-7) by (simp add: block_cells_unit uu cc)
  have wt': "wf_tetromino ?t"
    using wt k unfolding wf_tetromino_def units_set_up_def by simp
  have cz: "candidate_cells ?t 0 = candidate_cells t dr"
    using k by (simp add: candidate_cells_def candidate_state_def)
  have og': "list_all on_grid (block_cells ?t pf')"
    unfolding cells' list_all_iff using cand_free by blast
  have at': "list_all (\<lambda>u. cell pf' (fst (unit_cell pf' u)) (snd (unit_cell pf' u)) = u)
               (square_units ?t)"
    using r2(4-11) by (simp add: uu)
  have none_notin: "None \<notin> set ?us" using some unfolding list_all_iff by auto
  have own': "list_all (\<lambda>y. list_all (\<lambda>x. cell pf' x y \<notin> set (square_units ?t) \<or>
                 (x, y) \<in> set (block_cells ?t pf')) [0 .. 9]) [0 .. 21]"
  proof (rule own_cells_onlyI)
    fix x y assume o: "on_grid (x, y)" and c: "cell pf' x y \<in> set (square_units ?t)"
    show "(x, y) \<in> set (block_cells ?t pf')"
    proof (rule ccontr)
      assume n: "(x, y) \<notin> set (block_cells ?t pf')"
      then have "(x, y) \<notin> {c0, c1, c2, c3}" unfolding cells' cc by simp
      then have e: "cell pf' x y = cell pf1 x y" using r2(12) o by blast
      show False
      proof (cases "(x, y) \<in> set (block_cells t pf)")
        case True
        then have "cell pf1 x y = None" using r1(4) o old_set by auto
        with e c none_notin show False by simp
      next
        case False
        then have "cell pf1 x y = cell pf x y" using r1(4) o old_set by auto
        with e c have "cell pf x y \<in> set ?us" by simp
        from own_cells_only[OF pl o this] False show False by simp
      qed
    qed
  qed
  have hp': "list_all (\<lambda>u. the u < length (heap pf')) (square_units ?t)"
    using hp r2(3) h1 by simp
  have pl': "piece_placed ?t pf'"
    unfolding piece_placed_def using wt' du hp' cells' cz og' at' own' by simp
  have gone: "\<forall>p \<in> set (block_cells t pf). p \<notin> set (candidate_cells t dr) \<longrightarrow>
            cell pf' (fst p) (snd p) = None"
  proof (intro ballI impI)
    fix p assume p: "p \<in> set (block_cells t pf)" "p \<notin> set (candidate_cells t dr)"
    have o: "on_grid p" using og p(1) unfolding list_all_iff by blast
    have "p \<notin> {c0, c1, c2, c3}" using p(2) unfolding cc by simp
    then have "cell pf' (fst p) (snd p) = cell pf1 (fst p) (snd p)"
      using r2(12) o by (cases p) auto
    also have "\<dots> = None" using r1(4) o old_set p(1) by (cases p) auto
    finally show "cell pf' (fst p) (snd p) = None" .
  qed
  show ?thesis using run r2(2) pl' cells' gone by blast
qed


lemma wf_spawn_playfield: "wf_playfield spawn_playfield"
  by (simp add: wf_playfield_def spawn_playfield_def new_Playfield_def list_all_iff)

lemma placed_T_spawned: "piece_placed T_spawned spawn_playfield"
  by code_simp

text \<open>
  C6. For every piece variant placed on a well-formed playfield whose clockwise rotation
  is not blocked: \<open>rotate(+1)\<close> followed by \<open>rotate(-1)\<close> raises nothing, the rotation
  back is not blocked either, and the piece ends as it began (the same rotation index,
  origin and square units) with all four blocks at their original positions.
\<close>

theorem rotate_there_and_back:
  assumes "wf_playfield pf" and "piece_placed t pf"
    and "\<not> list_ex (\<lambda>(x, y). collides_at t pf x y) (candidate_cells t 1)"
  shows "\<exists>t1 pf1 pf2. rotate_call t pf 1 = Inr (t1, pf1) \<and>
           rotate_call t1 pf1 (- 1) = Inr (t, pf2) \<and>
           block_cells t pf2 = block_cells t pf"
proof (cases "shape t = ShapeO")
  case True
  then show ?thesis by (simp add: rotate_call_def ShapeO_rotate_def)
next
  case False
  let ?n = "int (length (block_positions t))"
  let ?t1 = "t\<lparr>rotation_index := (rotation_index t + 1) mod ?n\<rparr>"
  have rc: "rotate_call u pf' d = Tetromino_rotate u pf' d" if "shape u = shape t" for u pf' d
    using False that by (cases "shape t") (simp_all add: rotate_call_def)
  have wt: "wf_tetromino t" and bc: "block_cells t pf = candidate_cells t 0"
    and og: "list_all on_grid (block_cells t pf)"
    using assms(2) unfolding piece_placed_def by blast+
  have ri: "0 \<le> rotation_index t" "rotation_index t < ?n"
    using wt unfolding wf_tetromino_def by blast+
  from rotate_step[OF assms(1,2) _ assms(3)] obtain pf1 where
    s1: "Tetromino_rotate t pf 1 = Inr (?t1, pf1)" "wf_playfield pf1" "piece_placed ?t1 pf1"
      "block_cells ?t1 pf1 = candidate_cells t 1"
      "\<forall>p \<in> set (block_cells t pf). p \<notin> set (candidate_cells t 1) \<longrightarrow>
            cell pf1 (fst p) (snd p) = None"
    by auto
  have back_idx: "((rotation_index t + 1) mod ?n + - 1) mod ?n = rotation_index t"
  proof -
    have "((rotation_index t + 1) mod ?n + - 1) mod ?n = (rotation_index t + 1 + - 1) mod ?n"
      by (rule mod_add_left_eq)
    then show ?thesis using ri by simp
  qed
  have back_idx': "((rotation_index t + 1) mod ?n - 1) mod ?n = rotation_index t"
    using back_idx by simp
  have back_cells: "candidate_cells ?t1 (- 1) = block_cells t pf"
    using ri unfolding bc
    by (simp add: candidate_cells_def candidate_state_def back_idx')
  have at1: "list_all (\<lambda>u. cell pf1 (fst (unit_cell pf1 u)) (snd (unit_cell pf1 u)) = u)
               (square_units t)"
    using s1(3) unfolding piece_placed_def by simp
  have gw: "grid_width pf1 = 10" "grid_height pf1 = 22"
    using s1(2) by (simp_all add: wf_playfield_def)
  have free2: "\<not> list_ex (\<lambda>(x, y). collides_at ?t1 pf1 x y) (candidate_cells ?t1 (- 1))"
    unfolding back_cells list_ex_iff
  proof
    assume "\<exists>p \<in> set (block_cells t pf). case p of (x, y) \<Rightarrow> collides_at ?t1 pf1 x y"
    then obtain p where p: "p \<in> set (block_cells t pf)" "collides_at ?t1 pf1 (fst p) (snd p)"
      by (auto simp: case_prod_beta)
    have o: "on_grid p" using og p(1) unfolding list_all_iff by blast
    have c: "cell pf1 (fst p) (snd p) = None \<or> cell pf1 (fst p) (snd p) \<in> set (square_units t)"
    proof (cases "p \<in> set (candidate_cells t 1)")
      case True
      then have "p \<in> unit_cell pf1 ` set (square_units t)"
        using s1(4) unfolding block_cells_unit by (metis Tetromino.select_convs(5) Tetromino.surjective Tetromino.update_convs(7) set_map)
      then obtain u where u: "u \<in> set (square_units t)" "p = unit_cell pf1 u"
        by blast
      then have "cell pf1 (fst p) (snd p) = u" using at1 unfolding list_all_iff by auto
      with u(1) show ?thesis by simp
    next
      case False
      then show ?thesis using s1(5) p(1) by blast
    qed
    from p(2) o c show False
      unfolding collides_at_def on_grid_def gw by auto
  qed
  from rotate_step[OF s1(2,3) _ free2] obtain pf2 where
    s2: "Tetromino_rotate ?t1 pf1 (- 1)
           = Inr (?t1\<lparr>rotation_index :=
                      (rotation_index ?t1 + - 1) mod int (length (block_positions ?t1))\<rparr>, pf2)"
      "block_cells (?t1\<lparr>rotation_index :=
                      (rotation_index ?t1 + - 1) mod int (length (block_positions ?t1))\<rparr>) pf2
           = candidate_cells ?t1 (- 1)"
    by auto
  have t2: "?t1\<lparr>rotation_index :=
               (rotation_index ?t1 + - 1) mod int (length (block_positions ?t1))\<rparr> = t"
    by (simp add: back_idx')
  have "rotate_call t pf 1 = Inr (?t1, pf1)" using s1(1) rc[of t] by simp
  moreover have "rotate_call ?t1 pf1 (- 1) = Inr (t, pf2)"
    using s2(1) rc[of ?t1] unfolding t2 by simp
  moreover have "block_cells t pf2 = block_cells t pf"
    using s2(2) unfolding t2 back_cells .
  ultimately show ?thesis by blast
qed

theorem rotate_there_and_back_witness:
  "wf_playfield spawn_playfield \<and> piece_placed T_spawned spawn_playfield \<and>
   \<not> list_ex (\<lambda>(x, y). collides_at T_spawned spawn_playfield x y) (candidate_cells T_spawned 1) \<and>
   (\<exists>t1 pf1 pf2. rotate_call T_spawned spawn_playfield 1 = Inr (t1, pf1) \<and>
           rotate_call t1 pf1 (- 1) = Inr (T_spawned, pf2) \<and>
           block_cells T_spawned pf2 = block_cells T_spawned spawn_playfield)"
proof -
  have f: "\<not> list_ex (\<lambda>(x, y). collides_at T_spawned spawn_playfield x y)
             (candidate_cells T_spawned 1)"
    by code_simp
  show ?thesis
    using rotate_there_and_back[OF wf_spawn_playfield placed_T_spawned f]
      wf_spawn_playfield placed_T_spawned f
    by blast
qed


section \<open>Spawning\<close>

lemma setup_blocks_ok:
  assumes "length (square_units t) = 4" "0 \<le> rotation_index t"
    "rotation_index t < int (length (block_positions t))"
    "block_positions t ! nat (rotation_index t) = [v0, v1, v2, v3]"
  shows "setup_blocks t pf px py =
     Inr (t\<lparr>x_coord_t := px, y_coord_t := py,
            square_units := [Some (length (heap pf)), Some (length (heap pf) + 1),
                             Some (length (heap pf) + 2), Some (length (heap pf) + 3)]\<rparr>,
          pf\<lparr>heap := heap pf @
                 [\<lparr>colour = colour_t t, x_coord = px + fst v0, y_coord = py + snd v0\<rparr>,
                  \<lparr>colour = colour_t t, x_coord = px + fst v1, y_coord = py + snd v1\<rparr>,
                  \<lparr>colour = colour_t t, x_coord = px + fst v2, y_coord = py + snd v2\<rparr>,
                  \<lparr>colour = colour_t t, x_coord = px + fst v3, y_coord = py + snd v3\<rparr>]\<rparr>)"
proof -
  obtain u0 u1 u2 u3 where u: "square_units t = [u0, u1, u2, u3]"
    using assms(1) by (rule length4E)
  show ?thesis
    using assms(2,3)
    by (simp add: setup_blocks_def Let_def assms(4) upto_0_3 u)
qed


lemma same_but_matrix_fields:
  assumes "same_but_matrix a b"
  shows "heap b = heap a" "game_over b = game_over a"
    "tetromino_isactive b = tetromino_isactive a" "active_tetromino b = active_tetromino a"
proof -
  obtain m where "b = a\<lparr>matrix := m\<rparr>"
    using assms unfolding same_but_matrix_def by blast
  then show "heap b = heap a" "game_over b = game_over a"
    "tetromino_isactive b = tetromino_isactive a" "active_tetromino b = active_tetromino a"
    by simp_all
qed

lemma unit_cell_heap_eq: "heap a = heap b \<Longrightarrow> unit_cell a = unit_cell b"
  by (rule ext) (simp add: unit_cell_def)

lemma block_cells_heap_eq: "heap a = heap b \<Longrightarrow> block_cells t a = block_cells t b"
  by (simp add: block_cells_def)

lemma cell_matrix_eq: "matrix a = matrix b \<Longrightarrow> cell a x y = cell b x y"
  by (simp add: cell_def)

lemma wf_playfield_cong:
  "matrix a = matrix b \<Longrightarrow> grid_width a = grid_width b \<Longrightarrow> grid_height a = grid_height b \<Longrightarrow>
   hidden_rows a = hidden_rows b \<Longrightarrow> clear_delay a = clear_delay b \<Longrightarrow>
   wf_playfield a = wf_playfield b"
  by (simp add: wf_playfield_def)

lemma place_cells:
  assumes "wf_playfield p1" "units_set_up t1" "distinct (block_cells t1 p1)"
    "list_all on_grid (block_cells t1 p1)"
  shows "\<exists>p'. set_tetromino_loop p1 (square_units t1) = Inr p' \<and> wf_playfield p' \<and>
     same_but_matrix p1 p' \<and>
     list_all (\<lambda>u. cell p' (fst (unit_cell p' u)) (snd (unit_cell p' u)) = u) (square_units t1) \<and>
     (\<forall>x y. on_grid (x, y) \<and> (x, y) \<notin> set (block_cells t1 p1) \<longrightarrow> cell p' x y = cell p1 x y)"
proof -
  have some: "list_all (\<lambda>u. u \<noteq> None) (square_units t1)"
    using assms(2) unfolding units_set_up_def by blast
  have d: "distinct (map (unit_cell p1) (square_units t1))"
    using assms(3) by (simp add: block_cells_unit)
  have o: "list_all (\<lambda>u. on_grid (unit_cell p1 u)) (square_units t1)"
    using assms(4) unfolding block_cells_unit list_all_iff by simp
  from set_tetromino_loop_ok[OF assms(1) some d o] obtain p' where
    r: "set_tetromino_loop p1 (square_units t1) = Inr p'" "wf_playfield p'"
      "same_but_matrix p1 p'"
      "\<forall>u \<in> set (square_units t1). cell p' (fst (unit_cell p1 u)) (snd (unit_cell p1 u)) = u"
      "\<forall>x y. on_grid (x, y) \<longrightarrow> (x, y) \<notin> unit_cell p1 ` set (square_units t1) \<longrightarrow>
          cell p' x y = cell p1 x y"
    by blast
  have uc: "unit_cell p' = unit_cell p1"
    using same_but_matrix_fields(1)[OF r(3)] by (rule unit_cell_heap_eq)
  have "list_all (\<lambda>u. cell p' (fst (unit_cell p' u)) (snd (unit_cell p' u)) = u) (square_units t1)"
    unfolding uc list_all_iff using r(4) by blast
  moreover have "\<forall>x y. on_grid (x, y) \<and> (x, y) \<notin> set (block_cells t1 p1) \<longrightarrow>
      cell p' x y = cell p1 x y"
    using r(5) by (simp add: block_cells_unit)
  ultimately show ?thesis using r(1,2,3) by blast
qed

lemma add_to_grid_free:
  assumes "wf_playfield p1" "units_set_up t1" "distinct (block_cells t1 p1)"
    "list_all on_grid (block_cells t1 p1)" "\<not> list_ex (occupied p1) (block_cells t1 p1)"
  shows "add_to_grid t1 p1 = set_tetromino_loop p1 (square_units t1)"
proof -
  have some: "list_all (\<lambda>u. u \<noteq> None) (square_units t1)"
    using assms(2) unfolding units_set_up_def by blast
  have d: "distinct (map (unit_cell p1) (square_units t1))"
    using assms(3) by (simp add: block_cells_unit)
  have o: "list_all (\<lambda>u. on_grid (unit_cell p1 u) \<and>
                  cell p1 (fst (unit_cell p1 u)) (snd (unit_cell p1 u)) = None) (square_units t1)"
    using assms(4,5) unfolding block_cells_unit list_all_iff list_ex_iff occupied_def by simp
  show ?thesis unfolding add_to_grid_def
    by (rule add_to_grid_loop_eq[OF assms(1) some d o])
qed

lemma on_grid_nat: "on_grid (x, y) \<Longrightarrow> nat x < 10 \<and> nat y < 22"
  unfolding on_grid_def by (simp, linarith)

lemma refs_allocated_cell:
  assumes "wf_playfield pf" "refs_allocated pf" "on_grid (x, y)" "cell pf x y = Some r"
  shows "r < length (heap pf)"
proof -
  have y: "nat y < length (matrix pf)" using assms(1) on_grid_nat[OF assms(3)]
    unfolding wf_playfield_def by simp
  then have "nat x < length (matrix pf ! nat y)"
    using on_grid_nat[OF assms(3)] wf_row_length[OF assms(1), of "nat y"]
    by simp
  with y assms(2) have "case matrix pf ! nat y ! nat x of None \<Rightarrow> True
                        | Some r \<Rightarrow> r < length (heap pf)"
    unfolding refs_allocated_def list_all_length by blast
  with assms(4) show ?thesis by (simp add: cell_def)
qed

lemma spawn_cells_props:
  "length (spawn_cells s y0) = 4" "distinct (spawn_cells s y0)"
  "y0 = 1 \<or> y0 = 2 \<Longrightarrow> list_all on_grid (spawn_cells s y0)"
proof -
  show "length (spawn_cells s y0) = 4" "distinct (spawn_cells s y0)"
    by (cases s; simp add: spawn_cells_def shape_positions_def)+
  show "list_all on_grid (spawn_cells s y0)" if "y0 = 1 \<or> y0 = 2"
    using that by (cases s; auto simp: spawn_cells_def shape_positions_def on_grid_def)
qed


lemma same_but_grid_fields:
  assumes "same_but_grid a b"
  shows "game_over b = game_over a" "tetromino_isactive b = tetromino_isactive a"
proof -
  obtain m h where "b = a\<lparr>matrix := m, heap := h\<rparr>"
    using assms unfolding same_but_grid_def by blast
  then show "game_over b = game_over a" "tetromino_isactive b = tetromino_isactive a"
    by simp_all
qed

lemma occupied_matrix_eq: "matrix a = matrix b \<Longrightarrow> occupied a = occupied b"
  by (rule ext) (simp add: occupied_def cell_def)

lemma refs_allocated_cong:
  "heap a = heap b \<Longrightarrow> matrix a = matrix b \<Longrightarrow> refs_allocated a = refs_allocated b"
  by (simp add: refs_allocated_def cong: option.case_cong)

lemma spawn_attempt:
  assumes wf: "wf_playfield p" and ra: "refs_allocated p"
    and t0: "length (square_units t0) = 4" "rotation_index t0 = 0"
      "block_positions t0 = shape_positions s"
    and y0: "y0 = 1 \<or> y0 = 2"
  shows "\<exists>t1 p1. setup_blocks t0 p 3 y0 = Inr (t1, p1) \<and>
      wf_playfield p1 \<and> refs_allocated p1 \<and> matrix p1 = matrix p \<and> same_but_grid p p1 \<and>
      units_set_up t1 \<and> rotation_index t1 = 0 \<and> block_positions t1 = shape_positions s \<and>
      shape t1 = shape t0 \<and> x_coord_t t1 = 3 \<and> y_coord_t t1 = y0 \<and>
      block_cells t1 p1 = spawn_cells s y0 \<and>
      would_collide t1 p1 0 0 = Inr (list_ex (occupied p) (spawn_cells s y0))"
proof -
  let ?n = "length (heap p)"
  have "shape_positions s ! 0 \<in> set (shape_positions s)"
    using shape_states_nonempty[of s] by (rule nth_mem)
  then have "length (shape_positions s ! 0) = 4" using shape_states by blast
  then obtain v0 v1 v2 v3 where v: "shape_positions s ! 0 = [v0, v1, v2, v3]"
    by (rule length4E)
  define t1 where "t1 = t0\<lparr>x_coord_t := 3, y_coord_t := y0,
            square_units := [Some ?n, Some (?n + 1), Some (?n + 2), Some (?n + 3)]\<rparr>"
  define p1 where "p1 = p\<lparr>heap := heap p @
                 [\<lparr>colour = colour_t t0, x_coord = 3 + fst v0, y_coord = y0 + snd v0\<rparr>,
                  \<lparr>colour = colour_t t0, x_coord = 3 + fst v1, y_coord = y0 + snd v1\<rparr>,
                  \<lparr>colour = colour_t t0, x_coord = 3 + fst v2, y_coord = y0 + snd v2\<rparr>,
                  \<lparr>colour = colour_t t0, x_coord = 3 + fst v3, y_coord = y0 + snd v3\<rparr>]\<rparr>"
  have su: "setup_blocks t0 p 3 y0 = Inr (t1, p1)"
    unfolding t1_def p1_def
    by (rule setup_blocks_ok[OF t0(1)]) (use t0 v shape_states_nonempty[of s] in simp_all)
  have wf1: "wf_playfield p1" using wf by (simp add: p1_def)
  have m1: "matrix p1 = matrix p" by (simp add: p1_def)
  have ra1: "refs_allocated p1"
    unfolding refs_allocated_def list_all_iff
  proof (intro ballI)
    fix row c assume rc: "row \<in> set (matrix p1)" "c \<in> set row"
    then have "case c of None \<Rightarrow> True | Some r \<Rightarrow> r < length (heap p)"
      using ra m1 unfolding refs_allocated_def list_all_iff by simp
    then show "case c of None \<Rightarrow> True | Some r \<Rightarrow> r < length (heap p1)"
      by (cases c) (simp_all add: p1_def)
  qed
  have sg: "same_but_grid p p1" by (simp add: same_but_grid_def p1_def)
  have us: "units_set_up t1" by (simp add: units_set_up_def t1_def)
  have bc: "block_cells t1 p1 = spawn_cells s y0"
    by (simp add: block_cells_def t1_def p1_def spawn_cells_def v nth_append)
  have og: "list_all on_grid (spawn_cells s y0)" by (rule spawn_cells_props(3)[OF y0])
  have gw: "grid_width p1 = 10" "grid_height p1 = 22"
    using wf1 by (simp_all add: wf_playfield_def)
  have eq: "collides_at t1 p1 (fst c) (snd c) \<longleftrightarrow> occupied p c"
    if c: "c \<in> set (spawn_cells s y0)" for c
  proof -
    have o: "on_grid c" using og c unfolding list_all_iff by blast
    have ce: "cell p1 (fst c) (snd c) = cell p (fst c) (snd c)"
      using m1 by (rule cell_matrix_eq)
    have "cell p (fst c) (snd c) \<notin> set (square_units t1)"
      if "cell p (fst c) (snd c) \<noteq> None"
    proof -
      from that obtain r where r: "cell p (fst c) (snd c) = Some r" by auto
      have "r < ?n" using refs_allocated_cell[OF wf ra _ r] o by simp
      then show ?thesis unfolding r by (simp add: t1_def)
    qed
    then show ?thesis
      using o unfolding collides_at_def occupied_def gw ce on_grid_def by auto
  qed
  have "would_collide t1 p1 0 0 =
      Inr (list_ex (\<lambda>(x, y). collides_at t1 p1 (x + 0) (y + 0)) (block_cells t1 p1))"
    by (rule would_collide_cells[OF wf1 us])
  also have "list_ex (\<lambda>(x, y). collides_at t1 p1 (x + 0) (y + 0)) (block_cells t1 p1)
      = list_ex (occupied p) (spawn_cells s y0)"
    unfolding bc list_ex_iff using eq by (auto simp: case_prod_beta)
  finally have wc: "would_collide t1 p1 0 0 = Inr (list_ex (occupied p) (spawn_cells s y0))" .
  have "rotation_index t1 = 0" "block_positions t1 = shape_positions s" "shape t1 = shape t0"
    "x_coord_t t1 = 3" "y_coord_t t1 = y0"
    using t0 by (simp_all add: t1_def)
  with su wf1 ra1 m1 sg us bc wc show ?thesis by blast
qed

lemma placed_result:
  assumes "wf_playfield q" "units_set_up t" "block_cells t q = cs" "distinct cs"
    "list_all on_grid cs" "matrix q = matrix pf"
  shows "\<exists>p'. set_tetromino_loop q (square_units t) = Inr p' \<and> same_but_matrix q p' \<and>
      list_all (\<lambda>u. cell (p'\<lparr>active_tetromino := Some t\<rparr>)
                      (fst (unit_cell (p'\<lparr>active_tetromino := Some t\<rparr>) u))
                      (snd (unit_cell (p'\<lparr>active_tetromino := Some t\<rparr>) u)) = u)
        (square_units t) \<and>
      (\<forall>x y. on_grid (x, y) \<and> (x, y) \<notin> set (block_cells t (p'\<lparr>active_tetromino := Some t\<rparr>))
          \<longrightarrow> cell (p'\<lparr>active_tetromino := Some t\<rparr>) x y = cell pf x y) \<and>
      block_cells t (p'\<lparr>active_tetromino := Some t\<rparr>) = cs"
proof -
  from place_cells[OF assms(1,2)] assms(3,4,5) obtain p' where
    r: "set_tetromino_loop q (square_units t) = Inr p'" "same_but_matrix q p'"
      "list_all (\<lambda>u. cell p' (fst (unit_cell p' u)) (snd (unit_cell p' u)) = u) (square_units t)"
      "\<forall>x y. on_grid (x, y) \<and> (x, y) \<notin> set (block_cells t q) \<longrightarrow> cell p' x y = cell q x y"
    by auto
  let ?f = "p'\<lparr>active_tetromino := Some t\<rparr>"
  have h: "heap ?f = heap p'" "heap p' = heap q"
    using same_but_matrix_fields(1)[OF r(2)] by simp_all
  have uc: "unit_cell ?f = unit_cell p'" by (rule unit_cell_heap_eq) simp
  have ce: "cell ?f x y = cell p' x y" for x y by (rule cell_matrix_eq) simp
  have bc: "block_cells t ?f = cs"
    using assms(3) h by (simp add: block_cells_def)
  have cq: "cell q x y = cell pf x y" for x y using assms(6) by (rule cell_matrix_eq)
  have "list_all (\<lambda>u. cell ?f (fst (unit_cell ?f u)) (snd (unit_cell ?f u)) = u) (square_units t)"
    unfolding uc using r(3) by (simp add: cell_def)
  moreover have "\<forall>x y. on_grid (x, y) \<and> (x, y) \<notin> set (block_cells t ?f)
          \<longrightarrow> cell ?f x y = cell pf x y"
    unfolding bc using r(4) assms(3) cq ce by simp
  ultimately show ?thesis using r(1,2) bc by blast
qed


lemma wf_column_playfield: "wf_playfield (column_playfield 1)" "wf_playfield (column_playfield 2)"
  "wf_playfield (new_Playfield 60)"
  by code_simp+

lemma refs_column_playfield: "refs_allocated (column_playfield 1)"
  "refs_allocated (column_playfield 2)" "refs_allocated (new_Playfield 60)"
  by code_simp+

text \<open>
  C4. For every well-formed playfield and every new piece, \<open>set_tetromino\<close> sets the
  piece up at origin (3, 2); if one of its cells there is occupied it sets it up again one
  row higher, at (3, 1). If that collides too, the game-over flag is set, the piece is not
  active, and its four blocks are written into the matrix at their positions all the same,
  over whatever was there; otherwise the piece is active, the game-over flag is as before,
  and the blocks are added to their (empty) cells. In every case the four cells of the
  piece hold its blocks afterwards, every other cell is unchanged, and nothing is raised.
\<close>

theorem spawn_retries_then_game_over:
  assumes "wf_playfield pf" and "refs_allocated pf"
  shows "\<exists>pf' t. set_tetromino pf (new_tetromino s) = Inr pf' \<and>
     active_tetromino pf' = Some t \<and> shape t = s \<and> units_set_up t \<and>
     list_all (\<lambda>u. cell pf' (fst (unit_cell pf' u)) (snd (unit_cell pf' u)) = u)
       (square_units t) \<and>
     (\<forall>x y. on_grid (x, y) \<and> (x, y) \<notin> set (block_cells t pf') \<longrightarrow> cell pf' x y = cell pf x y) \<and>
     (if \<not> list_ex (occupied pf) (spawn_cells s 2)
      then x_coord_t t = 3 \<and> y_coord_t t = 2 \<and> block_cells t pf' = spawn_cells s 2 \<and>
           tetromino_isactive pf' \<and> game_over pf' = game_over pf
      else x_coord_t t = 3 \<and> y_coord_t t = 1 \<and> block_cells t pf' = spawn_cells s 1 \<and>
           (if \<not> list_ex (occupied pf) (spawn_cells s 1)
            then tetromino_isactive pf' \<and> game_over pf' = game_over pf
            else game_over pf' \<and> \<not> tetromino_isactive pf'))"
proof -
  let ?p0 = "pf\<lparr>active_tetromino := Some (new_tetromino s), tetromino_isactive := True\<rparr>"
  have wf0: "wf_playfield ?p0" using assms(1) by (simp add: wf_playfield_def)
  have ra0: "refs_allocated ?p0"
    using assms(2) refs_allocated_cong[of ?p0 pf] by simp
  have oc0: "occupied ?p0 = occupied pf" by (rule occupied_matrix_eq) simp
  have n0: "length (square_units (new_tetromino s)) = 4" "rotation_index (new_tetromino s) = 0"
    "block_positions (new_tetromino s) = shape_positions s" "shape (new_tetromino s) = s"
    by (simp_all add: new_tetromino_def)
  from spawn_attempt[OF wf0 ra0 n0(1,2,3), of 2] obtain t1 p1 where
    a1: "setup_blocks (new_tetromino s) ?p0 3 2 = Inr (t1, p1)" "wf_playfield p1"
      "refs_allocated p1" "matrix p1 = matrix ?p0" "same_but_grid ?p0 p1" "units_set_up t1"
      "rotation_index t1 = 0" "block_positions t1 = shape_positions s" "shape t1 = s"
      "x_coord_t t1 = 3" "y_coord_t t1 = 2" "block_cells t1 p1 = spawn_cells s 2"
      "would_collide t1 p1 0 0 = Inr (list_ex (occupied pf) (spawn_cells s 2))"
    unfolding oc0 n0(4) by auto
  have m1: "matrix p1 = matrix pf" using a1(4) by simp
  have oc1: "occupied p1 = occupied pf" using m1 by (rule occupied_matrix_eq)
  have f1: "game_over p1 = game_over pf" "tetromino_isactive p1"
    using same_but_grid_fields[OF a1(5)] by simp_all
  show ?thesis
  proof (cases "list_ex (occupied pf) (spawn_cells s 2)")
    case False
    from placed_result[OF a1(2,6,12) spawn_cells_props(2) spawn_cells_props(3) m1]
    obtain p' where
      r: "set_tetromino_loop p1 (square_units t1) = Inr p'" "same_but_matrix p1 p'"
        "list_all (\<lambda>u. cell (p'\<lparr>active_tetromino := Some t1\<rparr>)
                      (fst (unit_cell (p'\<lparr>active_tetromino := Some t1\<rparr>) u))
                      (snd (unit_cell (p'\<lparr>active_tetromino := Some t1\<rparr>) u)) = u)
          (square_units t1)"
        "\<forall>x y. on_grid (x, y) \<and>
             (x, y) \<notin> set (block_cells t1 (p'\<lparr>active_tetromino := Some t1\<rparr>))
          \<longrightarrow> cell (p'\<lparr>active_tetromino := Some t1\<rparr>) x y = cell pf x y"
        "block_cells t1 (p'\<lparr>active_tetromino := Some t1\<rparr>) = spawn_cells s 2"
      by auto
    have free: "\<not> list_ex (occupied p1) (block_cells t1 p1)"
      using False unfolding oc1 a1(12) .
    have add: "add_to_grid t1 p1 = Inr p'"
      using add_to_grid_free[OF a1(2,6) _ _ free] r(1)
        spawn_cells_props(2)[of s 2] spawn_cells_props(3)[of 2 s]
      unfolding a1(12) by simp
    have run: "set_tetromino pf (new_tetromino s) = Inr (p'\<lparr>active_tetromino := Some t1\<rparr>)"
      using False by (simp add: set_tetromino_def Let_def a1(1,13) add)
    have fl: "tetromino_isactive (p'\<lparr>active_tetromino := Some t1\<rparr>)"
      "game_over (p'\<lparr>active_tetromino := Some t1\<rparr>) = game_over pf"
      using same_but_matrix_fields(2,3)[OF r(2)] f1 by simp_all
    show ?thesis
      using run r(3,4,5) fl a1(6,9,10,11) False by auto
  next
    case True
    have l1: "length (square_units t1) = 4" using a1(6) unfolding units_set_up_def by blast
    from spawn_attempt[OF a1(2,3) l1 a1(7,8), of 1] obtain t2 p2 where
      a2: "setup_blocks t1 p1 3 1 = Inr (t2, p2)" "wf_playfield p2"
        "matrix p2 = matrix p1" "same_but_grid p1 p2" "units_set_up t2" "shape t2 = s"
        "x_coord_t t2 = 3" "y_coord_t t2 = 1" "block_cells t2 p2 = spawn_cells s 1"
        "would_collide t2 p2 0 0 = Inr (list_ex (occupied pf) (spawn_cells s 1))"
      unfolding oc1 a1(9) by auto
    have m2: "matrix p2 = matrix pf" using a2(3) m1 by simp
    have oc2: "occupied p2 = occupied pf" using m2 by (rule occupied_matrix_eq)
    have f2: "game_over p2 = game_over pf" "tetromino_isactive p2"
      using same_but_grid_fields[OF a2(4)] f1 by simp_all
    show ?thesis
    proof (cases "list_ex (occupied pf) (spawn_cells s 1)")
      case False
      from placed_result[OF a2(2,5,9) spawn_cells_props(2) spawn_cells_props(3) m2]
      obtain p' where
        r: "set_tetromino_loop p2 (square_units t2) = Inr p'" "same_but_matrix p2 p'"
          "list_all (\<lambda>u. cell (p'\<lparr>active_tetromino := Some t2\<rparr>)
                      (fst (unit_cell (p'\<lparr>active_tetromino := Some t2\<rparr>) u))
                      (snd (unit_cell (p'\<lparr>active_tetromino := Some t2\<rparr>) u)) = u)
            (square_units t2)"
          "\<forall>x y. on_grid (x, y) \<and>
               (x, y) \<notin> set (block_cells t2 (p'\<lparr>active_tetromino := Some t2\<rparr>))
            \<longrightarrow> cell (p'\<lparr>active_tetromino := Some t2\<rparr>) x y = cell pf x y"
          "block_cells t2 (p'\<lparr>active_tetromino := Some t2\<rparr>) = spawn_cells s 1"
        by auto
      have free: "\<not> list_ex (occupied p2) (block_cells t2 p2)"
        using False unfolding oc2 a2(9) .
      have add: "add_to_grid t2 p2 = Inr p'"
        using add_to_grid_free[OF a2(2,5) _ _ free] r(1)
          spawn_cells_props(2)[of s 1] spawn_cells_props(3)[of 1 s]
        unfolding a2(9) by simp
      have run: "set_tetromino pf (new_tetromino s) = Inr (p'\<lparr>active_tetromino := Some t2\<rparr>)"
        using True False by (simp add: set_tetromino_def Let_def a1(1,13) a2(1,10) add)
      have fl: "tetromino_isactive (p'\<lparr>active_tetromino := Some t2\<rparr>)"
        "game_over (p'\<lparr>active_tetromino := Some t2\<rparr>) = game_over pf"
        using same_but_matrix_fields(2,3)[OF r(2)] f2 by simp_all
      show ?thesis
        using run r(3,4,5) fl a2(5,6,7,8) True False by auto
    next
      case over: True
      let ?p3 = "p2\<lparr>game_over := True, tetromino_isactive := False\<rparr>"
      have wf3: "wf_playfield ?p3" using a2(2) by (simp add: wf_playfield_def)
      have bc3: "block_cells t2 ?p3 = spawn_cells s 1"
        using a2(9) by (simp add: block_cells_def)
      have m3: "matrix ?p3 = matrix pf" using m2 by simp
      from placed_result[OF wf3 a2(5) bc3 spawn_cells_props(2) spawn_cells_props(3) m3]
      obtain p' where
        r: "set_tetromino_loop ?p3 (square_units t2) = Inr p'" "same_but_matrix ?p3 p'"
          "list_all (\<lambda>u. cell (p'\<lparr>active_tetromino := Some t2\<rparr>)
                      (fst (unit_cell (p'\<lparr>active_tetromino := Some t2\<rparr>) u))
                      (snd (unit_cell (p'\<lparr>active_tetromino := Some t2\<rparr>) u)) = u)
            (square_units t2)"
          "\<forall>x y. on_grid (x, y) \<and>
               (x, y) \<notin> set (block_cells t2 (p'\<lparr>active_tetromino := Some t2\<rparr>))
            \<longrightarrow> cell (p'\<lparr>active_tetromino := Some t2\<rparr>) x y = cell pf x y"
          "block_cells t2 (p'\<lparr>active_tetromino := Some t2\<rparr>) = spawn_cells s 1"
        by auto
      have run: "set_tetromino pf (new_tetromino s) = Inr (p'\<lparr>active_tetromino := Some t2\<rparr>)"
        using True over
        by (simp add: set_tetromino_def Let_def a1(1,13) a2(1,10) get_blocks_def r(1))
      have fl: "\<not> tetromino_isactive (p'\<lparr>active_tetromino := Some t2\<rparr>)"
        "game_over (p'\<lparr>active_tetromino := Some t2\<rparr>)"
        using same_but_matrix_fields(2,3)[OF r(2)] by simp_all
      show ?thesis
        using run r(3,4,5) fl a2(5,6,7,8) True over by auto
    qed
  qed
qed


theorem spawn_retries_then_game_over_witness:
  "wf_playfield (new_Playfield 60) \<and> refs_allocated (new_Playfield 60) \<and>
   \<not> list_ex (occupied (new_Playfield 60)) (spawn_cells ShapeT 2) \<and>
   (\<exists>pf' t. set_tetromino (new_Playfield 60) (new_tetromino ShapeT) = Inr pf' \<and>
      active_tetromino pf' = Some t \<and> block_cells t pf' = spawn_cells ShapeT 2 \<and>
      tetromino_isactive pf' \<and> game_over pf' = game_over (new_Playfield 60)) \<and>
   wf_playfield (column_playfield 2) \<and> refs_allocated (column_playfield 2) \<and>
   list_ex (occupied (column_playfield 2)) (spawn_cells ShapeI 2) \<and>
   \<not> list_ex (occupied (column_playfield 2)) (spawn_cells ShapeI 1) \<and>
   (\<exists>pf' t. set_tetromino (column_playfield 2) (new_tetromino ShapeI) = Inr pf' \<and>
      active_tetromino pf' = Some t \<and> block_cells t pf' = spawn_cells ShapeI 1 \<and>
      tetromino_isactive pf' \<and> game_over pf' = game_over (column_playfield 2)) \<and>
   wf_playfield (column_playfield 1) \<and> refs_allocated (column_playfield 1) \<and>
   list_ex (occupied (column_playfield 1)) (spawn_cells ShapeI 2) \<and>
   list_ex (occupied (column_playfield 1)) (spawn_cells ShapeI 1) \<and>
   (\<exists>pf' t. set_tetromino (column_playfield 1) (new_tetromino ShapeI) = Inr pf' \<and>
      active_tetromino pf' = Some t \<and> block_cells t pf' = spawn_cells ShapeI 1 \<and>
      list_all (\<lambda>u. cell pf' (fst (unit_cell pf' u)) (snd (unit_cell pf' u)) = u)
        (square_units t) \<and>
      game_over pf' \<and> \<not> tetromino_isactive pf')"
proof -
  have a: "\<not> list_ex (occupied (new_Playfield 60)) (spawn_cells ShapeT 2)"
    by code_simp
  have b: "list_ex (occupied (column_playfield 2)) (spawn_cells ShapeI 2)"
    "\<not> list_ex (occupied (column_playfield 2)) (spawn_cells ShapeI 1)"
    by code_simp+
  have c: "list_ex (occupied (column_playfield 1)) (spawn_cells ShapeI 2)"
    "list_ex (occupied (column_playfield 1)) (spawn_cells ShapeI 1)"
    by code_simp+
  have wa: "\<exists>pf' t. set_tetromino (new_Playfield 60) (new_tetromino ShapeT) = Inr pf' \<and>
      active_tetromino pf' = Some t \<and> block_cells t pf' = spawn_cells ShapeT 2 \<and>
      tetromino_isactive pf' \<and> game_over pf' = game_over (new_Playfield 60)"
    using spawn_retries_then_game_over[OF wf_column_playfield(3) refs_column_playfield(3),
        of ShapeT] a
    by auto
  have wb: "\<exists>pf' t. set_tetromino (column_playfield 2) (new_tetromino ShapeI) = Inr pf' \<and>
      active_tetromino pf' = Some t \<and> block_cells t pf' = spawn_cells ShapeI 1 \<and>
      tetromino_isactive pf' \<and> game_over pf' = game_over (column_playfield 2)"
    using spawn_retries_then_game_over[OF wf_column_playfield(2) refs_column_playfield(2),
        of ShapeI] b
    by auto
  have wc: "\<exists>pf' t. set_tetromino (column_playfield 1) (new_tetromino ShapeI) = Inr pf' \<and>
      active_tetromino pf' = Some t \<and> block_cells t pf' = spawn_cells ShapeI 1 \<and>
      list_all (\<lambda>u. cell pf' (fst (unit_cell pf' u)) (snd (unit_cell pf' u)) = u)
        (square_units t) \<and>
      game_over pf' \<and> \<not> tetromino_isactive pf'"
    using spawn_retries_then_game_over[OF wf_column_playfield(1) refs_column_playfield(1),
        of ShapeI] c
    by auto
  show ?thesis
    using a b c wa wb wc wf_column_playfield refs_column_playfield by blast
qed


section \<open>Clearing a line\<close>

subsection \<open>The frames of the generator\<close>

lemma upto_0_0: "[0 .. 0 :: int] = [0]"
  by (simp add: upto.simps)

lemma wf_clear_generator_update [simp]:
  "wf_playfield (pf\<lparr>clear_generator := g\<rparr>) = wf_playfield pf"
  by (simp add: wf_playfield_def)

lemma sweep_steps:
  assumes r: "0 \<le> r" "r < 22"
  shows "wf_playfield pf \<Longrightarrow> clear_generator pf = Some g \<Longrightarrow>
     pc g = At_interval_yield [] cols \<Longrightarrow> full_rows g = [r] \<Longrightarrow>
     list_all (\<lambda>x. 0 \<le> x \<and> x < 10) cols \<Longrightarrow>
     next_clear_times calc (2 * length cols) pf =
       Inr (pf\<lparr>matrix := (matrix pf)[nat r := swept_row (matrix pf ! nat r) cols],
               clear_generator :=
                 Some (g\<lparr>delay_counter := delay_counter g + 2 * int (length cols),
                        pc := At_interval_yield [] []\<rparr>)\<rparr>)"
proof (induction cols arbitrary: pf g)
  case Nil
  have "g\<lparr>delay_counter := delay_counter g, pc := At_interval_yield [] []\<rparr> = g"
    using Nil.prems(3) by simp
  moreover have "pf\<lparr>matrix := matrix pf, clear_generator := Some g\<rparr> = pf"
    using Nil.prems(2) by simp
  ultimately show ?case by (simp add: swept_row_def)
next
  case (Cons x xs)
  have x: "0 \<le> x" "x < 10" using Cons.prems(5) by simp_all
  have og: "on_grid (x, r)" using x r by (simp add: on_grid_def)
  let ?ga = "g\<lparr>delay_counter := delay_counter g + 1, pc := At_column_yield xs\<rparr>"
  let ?pa = "(write_cell pf (x, r) None)\<lparr>clear_generator := Some ?ga\<rparr>"
  let ?gb = "g\<lparr>delay_counter := delay_counter g + 2, pc := At_interval_yield [] xs\<rparr>"
  let ?pb = "(write_cell pf (x, r) None)\<lparr>clear_generator := Some ?gb\<rparr>"
  have s1: "next_clear calc pf = Inr ?pa"
    using Cons.prems(2,3,4) matrix_set_on_grid[OF Cons.prems(1) og, of None]
    by (simp add: next_clear_def clear_interval_loop_def clear_column_loop_def)
  have s2: "next_clear calc ?pa = Inr ?pb"
    by (simp add: next_clear_def clear_interval_loop_def upto_0_0 Let_def)
  have wfb: "wf_playfield ?pb" using wf_write_cell[OF Cons.prems(1)] by simp
  have ih: "next_clear_times calc (2 * length xs) ?pb =
       Inr (?pb\<lparr>matrix := (matrix ?pb)[nat r := swept_row (matrix ?pb ! nat r) xs],
               clear_generator :=
                 Some (?gb\<lparr>delay_counter := delay_counter ?gb + 2 * int (length xs),
                        pc := At_interval_yield [] []\<rparr>)\<rparr>)"
    by (rule Cons.IH[OF wfb]) (use Cons.prems in simp_all)
  have nr: "nat r < length (matrix pf)"
    using Cons.prems(1) r unfolding wf_playfield_def by simp
  have m: "(matrix ?pb)[nat r := swept_row (matrix ?pb ! nat r) xs]
           = (matrix pf)[nat r := swept_row (matrix pf ! nat r) (x # xs)]"
    using nr by (simp add: write_cell_def swept_row_def)
  have "next_clear_times calc (2 * length (x # xs)) pf = next_clear_times calc (2 * length xs) ?pb"
    using s1 s2 by simp
  also have "\<dots> = Inr (pf\<lparr>matrix := (matrix pf)[nat r := swept_row (matrix pf ! nat r) (x # xs)],
               clear_generator :=
                 Some (g\<lparr>delay_counter := delay_counter g + 2 * int (length (x # xs)),
                        pc := At_interval_yield [] []\<rparr>)\<rparr>)"
    unfolding ih m by (simp add: write_cell_def)
  finally show ?case .
qed


lemma next_clear_times_add:
  "next_clear_times calc (m + n) pf =
     bind_err (next_clear_times calc m pf) (next_clear_times calc n)"
proof (induction m arbitrary: pf)
  case 0
  show ?case by simp
next
  case (Suc m)
  show ?case
  proof (cases "next_clear calc pf")
    case (Inl e)
    then show ?thesis by simp
  next
    case (Inr pf')
    then show ?thesis using Suc.IH[of pf'] by simp
  qed
qed

lemma delay_steps:
  "clear_generator pf = Some g \<Longrightarrow> pc g = At_delay_yield \<Longrightarrow>
   delay_counter g + int n \<le> clear_delay pf + 1 \<Longrightarrow>
   next_clear_times calc n pf =
     Inr (pf\<lparr>clear_generator := Some (g\<lparr>delay_counter := delay_counter g + int n\<rparr>)\<rparr>)"
proof (induction n arbitrary: pf g)
  case 0
  then show ?case by simp
next
  case (Suc n)
  let ?g = "g\<lparr>delay_counter := delay_counter g + 1\<rparr>"
  let ?pf = "pf\<lparr>clear_generator := Some ?g\<rparr>"
  have le: "delay_counter g \<le> clear_delay pf" using Suc.prems(3) by simp
  have "g\<lparr>delay_counter := delay_counter g + 1, pc := At_delay_yield\<rparr> = ?g"
    using Suc.prems(2) by simp
  then have s: "next_clear calc pf = Inr ?pf"
    using Suc.prems(1,2) le by (simp add: next_clear_def clear_delay_loop_def)
  have "next_clear_times calc n ?pf =
     Inr (?pf\<lparr>clear_generator := Some (?g\<lparr>delay_counter := delay_counter ?g + int n\<rparr>)\<rparr>)"
    by (rule Suc.IH) (use Suc.prems in simp_all)
  then show ?case using s by (simp add: add.assoc add.commute)
qed

lemma end_steps:
  "clear_generator pf = Some g \<Longrightarrow> pc g = At_end_yield \<Longrightarrow> next_clear_times calc n pf = Inr pf"
  by (induction n) (simp_all add: next_clear_def)

lemma length_swept_row [simp]: "length (swept_row row cols) = length row"
  unfolding swept_row_def by (induction cols arbitrary: row) simp_all

lemma nth_swept_row:
  "list_all (\<lambda>x. 0 \<le> x) cols \<Longrightarrow> i < length row \<Longrightarrow>
   swept_row row cols ! i = (if int i \<in> set cols then None else row ! i)"
proof (induction cols arbitrary: row)
  case Nil
  show ?case by (simp add: swept_row_def)
next
  case (Cons x xs)
  have s: "swept_row row (x # xs) = swept_row (row[nat x := None]) xs"
    by (simp add: swept_row_def)
  have x: "0 \<le> x" using Cons.prems(1) by simp
  then have e: "nat x = i \<longleftrightarrow> x = int i" by auto
  show ?case unfolding s
    using Cons.IH[of "row[nat x := None]"] Cons.prems e
    by (auto simp: nth_list_update)
qed

lemma swept_row_all:
  assumes "length row = 10"
  shows "swept_row row [0 .. 9] = replicate 10 None"
proof (rule nth_equalityI)
  show "length (swept_row row [0 .. 9]) = length (replicate 10 (None :: ref option))"
    using assms by simp
next
  fix i assume "i < length (swept_row row [0 .. 9])"
  then have i: "i < 10" using assms by simp
  then have "int i \<in> set [0 .. 9]" by simp
  moreover have "list_all (\<lambda>x. 0 \<le> x) [0 .. 9 :: int]" by (simp add: list_all_iff)
  ultimately show "swept_row row [0 .. 9] ! i = replicate 10 None ! i"
    using nth_swept_row[of "[0 .. 9]" i row] i assms by simp
qed


lemma upto_0_9: "[0 .. 9 :: int] = [0, 1, 2, 3, 4, 5, 6, 7, 8, 9]"
  by (simp add: upto.simps)

lemma clear_run:
  assumes wf: "wf_playfield pf" and r: "0 \<le> r" "r < 22"
    and g: "clear_generator pf = Some (line_clear_generator [r])"
  shows "next_clear_times calc (42 + n) pf =
     bind_err
       (clear_finish calc
          (pf\<lparr>matrix := (matrix pf)[nat r := replicate 10 None],
              clear_generator := Some \<lparr>pc = At_delay_yield, full_rows = [r], num_of_lines = 1,
                                        delay_counter = 41\<rparr>\<rparr>)
          \<lparr>pc = At_delay_yield, full_rows = [r], num_of_lines = 1, delay_counter = 41\<rparr>)
       (next_clear_times calc n)"
proof -
  let ?g0 = "\<lparr>pc = At_interval_yield [] [0 .. 9], full_rows = [r], num_of_lines = 1,
              delay_counter = 0\<rparr>"
  let ?p0 = "pf\<lparr>clear_generator := Some ?g0\<rparr>"
  let ?M = "(matrix pf)[nat r := replicate 10 None]"
  let ?g20 = "\<lparr>pc = At_interval_yield [] [], full_rows = [r], num_of_lines = 1,
               delay_counter = 20\<rparr>"
  let ?g21 = "\<lparr>pc = At_delay_yield, full_rows = [r], num_of_lines = 1, delay_counter = 21\<rparr>"
  let ?G = "\<lparr>pc = At_delay_yield, full_rows = [r], num_of_lines = 1, delay_counter = 41\<rparr>"
  have c: "grid_width pf = 10" "clear_delay pf = 40"
    using wf by (simp_all add: wf_playfield_def)
  have wf0: "wf_playfield ?p0" using wf by simp
  have og: "on_grid (0, r)" using r by (simp add: on_grid_def)
  have first: "next_clear calc pf = next_clear calc ?p0"
    using matrix_set_on_grid[OF wf og, of None] matrix_set_on_grid[OF wf0 og, of None]
    by (simp add: next_clear_def g line_clear_generator_def c clear_interval_loop_def
        clear_column_loop_def upto_0_9 write_cell_def)
  have "next_clear_times calc (Suc 19) pf = next_clear_times calc (Suc 19) ?p0"
    unfolding next_clear_times.simps first ..
  then have e20: "next_clear_times calc 20 pf = next_clear_times calc 20 ?p0" by simp
  have nr: "nat r < 22" using r by linarith
  have row: "length (matrix pf ! nat r) = 10" using wf_row_length[OF wf nr] .
  have "next_clear_times calc (2 * length [0 .. 9 :: int]) ?p0 =
       Inr (?p0\<lparr>matrix := (matrix ?p0)[nat r := swept_row (matrix ?p0 ! nat r) [0 .. 9]],
               clear_generator :=
                 Some (?g0\<lparr>delay_counter := delay_counter ?g0 + 2 * int (length [0 .. 9 :: int]),
                        pc := At_interval_yield [] []\<rparr>)\<rparr>)"
    by (rule sweep_steps[OF r wf0]) (simp_all add: list_all_iff)
  then have s20: "next_clear_times calc 20 pf =
      Inr (pf\<lparr>matrix := ?M, clear_generator := Some ?g20\<rparr>)"
    unfolding e20 using row by (simp add: swept_row_all)
  have s21: "next_clear calc (pf\<lparr>matrix := ?M, clear_generator := Some ?g20\<rparr>) =
      Inr (pf\<lparr>matrix := ?M, clear_generator := Some ?g21\<rparr>)"
    by (simp add: next_clear_def clear_interval_loop_def clear_column_loop_def
        clear_delay_loop_def c)
  have "next_clear_times calc 20 (pf\<lparr>matrix := ?M, clear_generator := Some ?g21\<rparr>) =
      Inr ((pf\<lparr>matrix := ?M, clear_generator := Some ?g21\<rparr>)
             \<lparr>clear_generator := Some (?g21\<lparr>delay_counter := delay_counter ?g21 + int 20\<rparr>)\<rparr>)"
    by (rule delay_steps) (simp_all add: c)
  then have s41: "next_clear_times calc 20 (pf\<lparr>matrix := ?M, clear_generator := Some ?g21\<rparr>) =
      Inr (pf\<lparr>matrix := ?M, clear_generator := Some ?G\<rparr>)"
    by simp
  have s42: "next_clear calc (pf\<lparr>matrix := ?M, clear_generator := Some ?G\<rparr>) =
      clear_finish calc (pf\<lparr>matrix := ?M, clear_generator := Some ?G\<rparr>) ?G"
    by (simp add: next_clear_def clear_delay_loop_def c)
  have a: "next_clear_times calc (20 + k) pf =
      next_clear_times calc k (pf\<lparr>matrix := ?M, clear_generator := Some ?g20\<rparr>)" for k
    unfolding next_clear_times_add[of calc 20] s20 by simp
  have b: "next_clear_times calc (Suc k) (pf\<lparr>matrix := ?M, clear_generator := Some ?g20\<rparr>) =
      next_clear_times calc k (pf\<lparr>matrix := ?M, clear_generator := Some ?g21\<rparr>)" for k
    unfolding next_clear_times.simps s21 by simp
  have d: "next_clear_times calc (20 + k) (pf\<lparr>matrix := ?M, clear_generator := Some ?g21\<rparr>) =
      next_clear_times calc k (pf\<lparr>matrix := ?M, clear_generator := Some ?G\<rparr>)" for k
    unfolding next_clear_times_add[of calc 20] s41 by simp
  have "42 + n = 20 + Suc (20 + Suc n)" by simp
  then have "next_clear_times calc (42 + n) pf =
      next_clear_times calc (Suc n) (pf\<lparr>matrix := ?M, clear_generator := Some ?G\<rparr>)"
    using a[of "Suc (20 + Suc n)"] b[of "20 + Suc n"] d[of "Suc n"] by presburger
  also have "\<dots> = bind_err (next_clear calc (pf\<lparr>matrix := ?M, clear_generator := Some ?G\<rparr>))
                      (next_clear_times calc n)"
    by simp
  finally show ?thesis unfolding s42 .
qed


end
